theory Spec2Isabelle
  imports Main "HOL-Library.Word"
begin

unbundle bit_operations_syntax

section \<open>Data model\<close>

type_synonym byte = "8 word"
type_synonym uint32 = "32 word"
type_synonym uint64 = "64 word"

text \<open>
  \<^verbatim>\<open>TxResult\<close> of the source: the block number is a \<^verbatim>\<open>uint64\<close>, the four
  estimates and counts are \<^verbatim>\<open>uint32\<close>.
\<close>

record TxResult =
  BlockNumber :: uint64
  Best :: uint32
  Fastlz :: uint32
  Zeroes :: uint32
  NonZeroes :: uint32

text \<open>
  What stops a run: an index outside a slice or array (a Go panic), a failure reported by
  the compression engine (\<^verbatim>\<open>log.Fatal\<close>), and a call that never returns.
\<close>

datatype error = OutOfBounds | Fatal | NoReturn

section \<open>FastLZ length estimator\<close>

text \<open>
  \<^verbatim>\<open>ib[i]\<close> with a \<^verbatim>\<open>uint32\<close> index: Go checks the index against the length
  of the slice and panics when it is out of range.
\<close>

definition idx :: "byte list \<Rightarrow> uint32 \<Rightarrow> error + byte" where
  "idx ib i = (if unat i < length ib then Inr (ib ! unat i) else Inl OutOfBounds)"

text \<open>The closure \<^verbatim>\<open>u24\<close>: three reads, in the order Go evaluates them.\<close>

definition u24 :: "byte list \<Rightarrow> uint32 \<Rightarrow> error + uint32" where
  "u24 ib i =
     (case idx ib i of Inl x \<Rightarrow> Inl x | Inr b0 \<Rightarrow>
       (case idx ib (i + 1) of Inl x \<Rightarrow> Inl x | Inr b1 \<Rightarrow>
         (case idx ib (i + 2) of Inl x \<Rightarrow> Inl x | Inr b2 \<Rightarrow>
            Inr (ucast b0 OR push_bit 8 (ucast b1) OR push_bit 16 (ucast b2)))))"

text \<open>
  The closure \<^verbatim>\<open>cmp\<close>. Its loop \<^verbatim>\<open>for e -= q; l < e; l++\<close> sets \<^verbatim>\<open>e = 0\<close> at the
  first mismatch, so the increment still runs once before the test fails.
\<close>

function cmp_loop :: "byte list \<Rightarrow> uint32 \<Rightarrow> uint32 \<Rightarrow> uint32 \<Rightarrow> uint32 \<Rightarrow> error + uint32" where
  "cmp_loop ib p q e l =
     (if l < e then
        (case idx ib (p + l) of Inl x \<Rightarrow> Inl x | Inr c1 \<Rightarrow>
          (case idx ib (q + l) of Inl x \<Rightarrow> Inl x | Inr c2 \<Rightarrow>
             cmp_loop ib p q (if c1 \<noteq> c2 then 0 else e) (l + 1)))
      else Inr l)"
  by pat_completeness auto
termination
proof (relation "measure (\<lambda>(ib, p, q, e, l). unat e - unat l)")
  show "wf (measure (\<lambda>(ib, p, q, e, l). unat e - unat l))" by simp
next
  fix ib :: "byte list" and p q e l :: uint32 and c1 c2 :: byte
  assume lt: "l < e"
  then have ul: "unat l < unat e" by (simp add: word_less_nat_alt)
  have "unat e < 2 ^ 32" using unsigned_less [of e] by simp
  with ul have "unat (l + 1) = unat l + 1" by (simp add: unat_word_ariths)
  with ul show "((ib, p, q, if c1 \<noteq> c2 then 0 else e, l + 1), (ib, p, q, e, l))
      \<in> measure (\<lambda>(ib, p, q, e, l). unat e - unat l)"
    by (auto intro: diff_less_mono2)
qed

declare cmp_loop.simps [simp del]

definition cmp :: "byte list \<Rightarrow> uint32 \<Rightarrow> uint32 \<Rightarrow> uint32 \<Rightarrow> error + uint32" where
  "cmp ib p q e = cmp_loop ib p q (e - q) 0"

text \<open>The closures \<^verbatim>\<open>literals\<close> and \<^verbatim>\<open>match\<close> update the running cost \<^verbatim>\<open>n\<close>.\<close>

definition literals :: "uint32 \<Rightarrow> uint32 \<Rightarrow> uint32" where
  "literals n r =
     (let n1 = n + 0x21 * (r div 0x20); r1 = r mod 0x20
      in if r1 \<noteq> 0 then n1 + (r1 + 1) else n1)"

definition match :: "uint32 \<Rightarrow> uint32 \<Rightarrow> uint32" where
  "match n l =
     (let l1 = l - 1; n1 = n + 3 * (l1 div 262)
      in if l1 mod 262 \<ge> 6 then n1 + 3 else n1 + 2)"

definition hash :: "uint32 \<Rightarrow> uint32" where
  "hash v = drop_bit 19 (2654435769 * v) AND 0x1fff"

text \<open>The table \<^verbatim>\<open>ht\<close> is a slice of 8192 entries; reads and writes are bounds-checked.\<close>

definition htGet :: "uint32 list \<Rightarrow> uint32 \<Rightarrow> error + uint32" where
  "htGet ht h = (if unat h < length ht then Inr (ht ! unat h) else Inl OutOfBounds)"

definition htSet :: "uint32 list \<Rightarrow> uint32 \<Rightarrow> uint32 \<Rightarrow> error + uint32 list" where
  "htSet ht h v = (if unat h < length ht then Inr (ht[unat h := v]) else Inl OutOfBounds)"

definition setNextHash :: "byte list \<Rightarrow> uint32 list \<Rightarrow> uint32 \<Rightarrow> error + (uint32 list \<times> uint32)" where
  "setNextHash ib ht ip =
     (case u24 ib ip of Inl x \<Rightarrow> Inl x | Inr s \<Rightarrow>
       (case htSet ht (hash s) ip of Inl x \<Rightarrow> Inl x | Inr ht1 \<Rightarrow> Inr (ht1, ip + 1)))"

text \<open>
  The inner \<^verbatim>\<open>for { ... }\<close> loop that looks for a candidate match. It returns the
  position \<^verbatim>\<open>ip\<close>, the candidate \<^verbatim>\<open>r\<close> and the table (the distance \<^verbatim>\<open>d\<close> is not
  used after the loop).
\<close>

function scan :: "byte list \<Rightarrow> uint32 \<Rightarrow> uint32 list \<Rightarrow> uint32 \<Rightarrow> error + (uint32 \<times> uint32 \<times> uint32 list)" where
  "scan ib ipLimit ht ip =
     (case u24 ib ip of Inl x \<Rightarrow> Inl x | Inr s \<Rightarrow>
       (case htGet ht (hash s) of Inl x \<Rightarrow> Inl x | Inr r \<Rightarrow>
         (case htSet ht (hash s) ip of Inl x \<Rightarrow> Inl x | Inr ht1 \<Rightarrow>
            (if ip \<ge> ipLimit then Inr (ip, r, ht1)
             else if ip - r \<le> 0x1fff then
               (case u24 ib r of Inl x \<Rightarrow> Inl x | Inr t \<Rightarrow>
                  if s = t then Inr (ip + 1, r, ht1) else scan ib ipLimit ht1 (ip + 1))
             else scan ib ipLimit ht1 (ip + 1)))))"
  by pat_completeness auto
termination
proof (relation "measure (\<lambda>(ib, ipLimit, ht, ip). unat ipLimit - unat ip)")
  show "wf (measure (\<lambda>(ib, ipLimit, ht, ip). unat ipLimit - unat ip))" by simp
next
  fix ib :: "byte list" and ipLimit ip :: uint32 and ht ht1 :: "uint32 list"
  assume "\<not> ipLimit \<le> ip"
  then have lt: "ip < ipLimit" by simp
  then have ul: "unat ip < unat ipLimit" by (simp add: word_less_nat_alt)
  have "unat ipLimit < 2 ^ 32" using unsigned_less [of ipLimit] by simp
  with ul have "unat (ip + 1) = unat ip + 1" by (simp add: unat_word_ariths)
  with ul show "((ib, ipLimit, ht1, ip + 1), (ib, ipLimit, ht, ip))
      \<in> measure (\<lambda>(ib, ipLimit, ht, ip). unat ipLimit - unat ip)"
    by (auto intro: diff_less_mono2)
next
  fix ib :: "byte list" and ipLimit ip :: uint32 and ht ht1 :: "uint32 list"
  assume "\<not> ipLimit \<le> ip"
  then have lt: "ip < ipLimit" by simp
  then have ul: "unat ip < unat ipLimit" by (simp add: word_less_nat_alt)
  have "unat ipLimit < 2 ^ 32" using unsigned_less [of ipLimit] by simp
  with ul have "unat (ip + 1) = unat ip + 1" by (simp add: unat_word_ariths)
  with ul show "((ib, ipLimit, ht1, ip + 1), (ib, ipLimit, ht, ip))
      \<in> measure (\<lambda>(ib, ipLimit, ht, ip). unat ipLimit - unat ip)"
    by (auto intro: diff_less_mono2)
qed

declare scan.simps [simp del]

text \<open>
  The outer loop \<^verbatim>\<open>for ip := a + 2; ip < ipLimit; { ... }\<close>. It carries the table, the
  cost \<^verbatim>\<open>n\<close>, the anchor \<^verbatim>\<open>a\<close> and the position \<^verbatim>\<open>ip\<close>, and returns the cost
  with the anchor. The 32-bit position can wrap around on inputs of 4 GiB and more, where
  the loop need not end: \<open>None\<close> is a run that does not return.
\<close>

partial_function (option) flz_loop ::
  "byte list \<Rightarrow> uint32 \<Rightarrow> uint32 list \<Rightarrow> uint32 \<Rightarrow> uint32 \<Rightarrow> uint32 \<Rightarrow> (error + uint32 \<times> uint32) option" where
  "flz_loop ib ipLimit ht n a ip =
     (if ip < ipLimit then
        (case scan ib ipLimit ht ip of Inl x \<Rightarrow> Some (Inl x) | Inr (ip1, r, ht1) \<Rightarrow>
           if ip1 \<ge> ipLimit then Some (Inr (n, a))
           else
             let ip2 = ip1 - 1;
                 n1 = (if ip2 > a then literals n (ip2 - a) else n)
             in (case cmp ib (r + 3) (ip2 + 3) (ipLimit + 9) of Inl x \<Rightarrow> Some (Inl x) | Inr l \<Rightarrow>
                  (case setNextHash ib ht1 (ip2 + l) of Inl x \<Rightarrow> Some (Inl x) | Inr (ht2, ip3) \<Rightarrow>
                    (case setNextHash ib ht2 ip3 of Inl x \<Rightarrow> Some (Inl x) | Inr (ht3, ip4) \<Rightarrow>
                       flz_loop ib ipLimit ht3 (match n1 l) ip4 ip4))))
      else Some (Inr (n, a)))"

declare flz_loop.simps [code]

text \<open>
  \<^verbatim>\<open>ipLimit := uint32(len(ib)) - 13\<close>, set to 0 when the input has fewer than 13 bytes.
\<close>

definition ipLimit :: "byte list \<Rightarrow> uint32" where
  "ipLimit ib = (if length ib < 13 then 0 else word_of_nat (length ib) - 13)"

definition FlzCompressLen :: "byte list \<Rightarrow> (error + uint32) option" where
  "FlzCompressLen ib =
     (case flz_loop ib (ipLimit ib) (replicate 8192 0) 0 0 (0 + 2) of
        None \<Rightarrow> None
      | Some (Inl x) \<Rightarrow> Some (Inl x)
      | Some (Inr (n, a)) \<Rightarrow> Some (Inr (literals n (word_of_nat (length ib) - a))))"

section \<open>Result writer\<close>

text \<open>
  \<^verbatim>\<open>binary.Write(output, binary.LittleEndian, v)\<close> for a \<^verbatim>\<open>uint32\<close> appends the four
  bytes of \<^verbatim>\<open>v\<close>, least significant first. The output file is the list of bytes written
  so far.
\<close>

definition le32 :: "uint32 \<Rightarrow> byte list" where
  "le32 v = [ucast v, ucast (drop_bit 8 v), ucast (drop_bit 16 v), ucast (drop_bit 24 v)]"

definition binaryWrite :: "byte list \<Rightarrow> uint32 \<Rightarrow> byte list" where
  "binaryWrite out v = out @ le32 v"

text \<open>The body of the writer's loop: five writes, the block number cut to 32 bits.\<close>

definition writeResult :: "byte list \<Rightarrow> TxResult \<Rightarrow> byte list" where
  "writeResult out result =
     (let o1 = binaryWrite out (ucast (BlockNumber result));
          o2 = binaryWrite o1 (Best result);
          o3 = binaryWrite o2 (Fastlz result);
          o4 = binaryWrite o3 (Zeroes result)
      in binaryWrite o4 (NonZeroes result))"

text \<open>\<^verbatim>\<open>for result := range resultChan\<close>: the channel is the list of results in emission order.\<close>

fun writer :: "byte list \<Rightarrow> TxResult list \<Rightarrow> byte list" where
  "writer out [] = out"
| "writer out (result # rest) = writer (writeResult out result) rest"

text \<open>Reading four bytes back, least significant first.\<close>

definition le32_decode :: "byte list \<Rightarrow> uint32" where
  "le32_decode bs =
     ucast (bs ! 0) OR push_bit 8 (ucast (bs ! 1)) OR push_bit 16 (ucast (bs ! 2))
       OR push_bit 24 (ucast (bs ! 3))"

text \<open>The 20 bytes of one record, as the output format describes them.\<close>

definition record_bytes :: "TxResult \<Rightarrow> byte list" where
  "record_bytes r =
     le32 (ucast (BlockNumber r)) @ le32 (Best r) @ le32 (Fastlz r) @ le32 (Zeroes r)
       @ le32 (NonZeroes r)"

section \<open>Zlib batch estimator\<close>

text \<open>
  The compression engine (\<^verbatim>\<open>compress/zlib\<close>) is a library outside the repository, so
  it is a parameter of the model: a type \<open>'z\<close> of engine states with the operations the
  estimator calls. \<open>zWrite\<close> and \<open>zFlush\<close> return the new engine state and the bytes
  the call hands to the writer's destination, or \<open>None\<close> when the call reports an error.
  \<open>zNew\<close> is the engine of \<^verbatim>\<open>zlib.NewWriterLevel(_, zlib.BestCompression)\<close> (the level is
  valid, so the constructor reports no error) and \<open>zReset\<close> is what \<^verbatim>\<open>Reset\<close> does to
  the engine.
\<close>

record 'z zlib =
  zNew :: 'z
  zWrite :: "'z \<Rightarrow> byte list \<Rightarrow> ('z \<times> byte list) option"
  zFlush :: "'z \<Rightarrow> ('z \<times> byte list) option"
  zReset :: "'z \<Rightarrow> 'z"

text \<open>
  \<^verbatim>\<open>b [2]bytes.Buffer\<close> is an array of two buffer values and \<^verbatim>\<open>w [2]*zlib.Writer\<close> an
  array of two pointers. A writer is created on \<^verbatim>\<open>&b.b[i]\<close>: it holds the address of an
  array element, not the buffer value stored there. The model keeps, for each writer, the
  index of the element it writes to (\<open>target\<close>) next to its engine state. The elements
  themselves hold the bytes written so far (nothing reads from the buffers, so
  \<^verbatim>\<open>Len()\<close> is the number of bytes held).
\<close>

datatype index = I0 | I1

record 'z zlibWriter =
  target :: index
  zstate :: 'z

record 'z zlibBatchEstimator =
  b0 :: "byte list"
  b1 :: "byte list"
  w0 :: "'z zlibWriter"
  w1 :: "'z zlibWriter"

definition newZlibBatchEstimator :: "'z zlib \<Rightarrow> 'z zlibBatchEstimator" where
  "newZlibBatchEstimator Z =
     \<lparr>b0 = [], b1 = [],
      w0 = \<lparr>target = I0, zstate = zNew Z\<rparr>,
      w1 = \<lparr>target = I1, zstate = zNew Z\<rparr>\<rparr>"

definition writerAt :: "index \<Rightarrow> 'z zlibBatchEstimator \<Rightarrow> 'z zlibWriter" where
  "writerAt k e = (case k of I0 \<Rightarrow> w0 e | I1 \<Rightarrow> w1 e)"

definition setWriterAt ::
  "index \<Rightarrow> 'z zlibWriter \<Rightarrow> 'z zlibBatchEstimator \<Rightarrow> 'z zlibBatchEstimator" where
  "setWriterAt k wr e = (case k of I0 \<Rightarrow> e\<lparr>w0 := wr\<rparr> | I1 \<Rightarrow> e\<lparr>w1 := wr\<rparr>)"

text \<open>The bytes a writer emits are appended to the array element it targets.\<close>

definition appendAt :: "index \<Rightarrow> byte list \<Rightarrow> 'z zlibBatchEstimator \<Rightarrow> 'z zlibBatchEstimator" where
  "appendAt k bs e = (case k of I0 \<Rightarrow> e\<lparr>b0 := b0 e @ bs\<rparr> | I1 \<Rightarrow> e\<lparr>b1 := b1 e @ bs\<rparr>)"

text \<open>\<^verbatim>\<open>w.w[k].Write(p)\<close> and \<^verbatim>\<open>w.w[k].Flush()\<close>; an error ends the run in \<^verbatim>\<open>log.Fatal\<close>.\<close>

definition writerWrite ::
  "'z zlib \<Rightarrow> index \<Rightarrow> byte list \<Rightarrow> 'z zlibBatchEstimator \<Rightarrow> error + 'z zlibBatchEstimator" where
  "writerWrite Z k p e =
     (case zWrite Z (zstate (writerAt k e)) p of
        None \<Rightarrow> Inl Fatal
      | Some (z, bs) \<Rightarrow>
          Inr (appendAt (target (writerAt k e)) bs
                 (setWriterAt k ((writerAt k e)\<lparr>zstate := z\<rparr>) e)))"

definition writerFlush ::
  "'z zlib \<Rightarrow> index \<Rightarrow> 'z zlibBatchEstimator \<Rightarrow> error + 'z zlibBatchEstimator" where
  "writerFlush Z k e =
     (case zFlush Z (zstate (writerAt k e)) of
        None \<Rightarrow> Inl Fatal
      | Some (z, bs) \<Rightarrow>
          Inr (appendAt (target (writerAt k e)) bs
                 (setWriterAt k ((writerAt k e)\<lparr>zstate := z\<rparr>) e)))"

definition writeFlush ::
  "'z zlib \<Rightarrow> index \<Rightarrow> byte list \<Rightarrow> 'z zlibBatchEstimator \<Rightarrow> error + 'z zlibBatchEstimator" where
  "writeFlush Z k p e =
     (case writerWrite Z k p e of Inl x \<Rightarrow> Inl x | Inr e1 \<Rightarrow> writerFlush Z k e1)"

text \<open>
  The rotation, statement by statement: \<^verbatim>\<open>w.b[1].Reset()\<close>,
  \<^verbatim>\<open>w.w[1].Reset(&w.b[1])\<close> (the writer restarts and targets element 1), then the swap
  of the two buffer values and of the two writer pointers through \<^verbatim>\<open>tb\<close> and \<^verbatim>\<open>tw\<close>.
  The swap moves the writers to the other position; it does not change the element a
  writer targets.
\<close>

definition rotate :: "'z zlib \<Rightarrow> 'z zlibBatchEstimator \<Rightarrow> 'z zlibBatchEstimator" where
  "rotate Z e =
     (let e1 = e\<lparr>b1 := []\<rparr>;
          e2 = e1\<lparr>w1 := \<lparr>target = I1, zstate = zReset Z (zstate (w1 e1))\<rparr>\<rparr>;
          tb = b1 e2;
          tw = w1 e2;
          e3 = e2\<lparr>b1 := b0 e2\<rparr>;
          e4 = e3\<lparr>w1 := w0 e3\<rparr>;
          e5 = e4\<lparr>b0 := tb\<rparr>
      in e5\<lparr>w0 := tw\<rparr>)"

text \<open>\<^verbatim>\<open>if w.b[1].Len() > 64*1024\<close>: the same write and flush through \<^verbatim>\<open>w.w[0]\<close>.\<close>

definition mirror ::
  "'z zlib \<Rightarrow> byte list \<Rightarrow> 'z zlibBatchEstimator \<Rightarrow> error + 'z zlibBatchEstimator" where
  "mirror Z p e = (if length (b1 e) > 64 * 1024 then writeFlush Z I0 p e else Inr e)"

text \<open>
  The method \<^verbatim>\<open>write\<close> (the name alone is reserved in Isabelle). \<^verbatim>\<open>before\<close> and
  \<^verbatim>\<open>after\<close> (here \<open>before_len\<close> and \<open>after_len\<close>) are Go \<^verbatim>\<open>int\<close>s, so the
  difference can be negative; the result is converted to \<^verbatim>\<open>uint32\<close>.
\<close>

definition write_est ::
  "'z zlib \<Rightarrow> byte list \<Rightarrow> 'z zlibBatchEstimator \<Rightarrow> error + (uint32 \<times> 'z zlibBatchEstimator)" where
  "write_est Z p e =
     (let before_len = int (length (b1 e)) in
      case writeFlush Z I1 p e of Inl x \<Rightarrow> Inl x | Inr e2 \<Rightarrow>
        (let after_len = int (length (b1 e2)) in
         case mirror Z p e2 of Inl x \<Rightarrow> Inl x | Inr e3 \<Rightarrow>
           (let e4 = (if length (b1 e3) > 128 * 1024 then rotate Z e3 else e3)
            in if after_len - before_len - 2 < 0 then Inr (0, e4)
               else Inr (word_of_int (after_len - before_len - 2), e4))))"

text \<open>
  A small engine to run the estimator on concrete inputs: it stores its input unchanged,
  writes a two-byte header before the first output of a stream and ends every flush with
  the four bytes \<^verbatim>\<open>00 00 FF FF\<close>. Its state is whether the header is written and the
  bytes not yet flushed. It stands in for the real engine only where a concrete run is
  evaluated; the general lemmas hold for every engine.
\<close>

definition storeZ :: "(bool \<times> byte list) zlib" where
  "storeZ =
     \<lparr>zNew = (False, []),
      zWrite = (\<lambda>(h, pending) p. Some ((True, pending @ p), if h then [] else [0x78, 0xDA])),
      zFlush = (\<lambda>(h, pending).
                  Some ((True, []), (if h then [] else [0x78, 0xDA]) @ pending @ [0, 0, 0xFF, 0xFF])),
      zReset = (\<lambda>s. (False, []))\<rparr>"

text \<open>A sequence of writes, as the worker issues them, with the deltas returned.\<close>

fun writes ::
  "'z zlib \<Rightarrow> byte list list \<Rightarrow> 'z zlibBatchEstimator \<Rightarrow> error + (uint32 list \<times> 'z zlibBatchEstimator)" where
  "writes Z [] e = Inr ([], e)"
| "writes Z (p # ps) e =
     (case write_est Z p e of
        Inl x \<Rightarrow> Inl x
      | Inr (d, e1) \<Rightarrow>
          (case writes Z ps e1 of Inl x \<Rightarrow> Inl x | Inr (ds, e2) \<Rightarrow> Inr (d # ds, e2)))"

text \<open>
  The estimator over \<open>storeZ\<close> after writes of 60000, 10000 and 62000 bytes: the third
  write takes element 1 past 128 KB and rotates.
\<close>

definition rotated_example :: "(bool \<times> byte list) zlibBatchEstimator" where
  "rotated_example =
     \<lparr>b0 = [],
      b1 = 0x78 # 0xDA # replicate 10000 2 @ 0 # 0 # 0xFF # 0xFF # replicate 62000 3 @ [0, 0, 0xFF, 0xFF],
      w0 = \<lparr>target = I1, zstate = (False, [])\<rparr>,
      w1 = \<lparr>target = I0, zstate = (True, [])\<rparr>\<rparr>"

text \<open>
  Whether a write ends in a rotation: the test \<^verbatim>\<open>w.b[1].Len() > 128*1024\<close> on the state
  the write has reached when it gets there.
\<close>

definition rotates :: "'z zlib \<Rightarrow> byte list \<Rightarrow> 'z zlibBatchEstimator \<Rightarrow> bool" where
  "rotates Z p e =
     (case writeFlush Z I1 p e of
        Inl x \<Rightarrow> False
      | Inr e2 \<Rightarrow> (case mirror Z p e2 of Inl x \<Rightarrow> False | Inr e3 \<Rightarrow> length (b1 e3) > 128 * 1024))"

text \<open>The estimator over \<open>storeZ\<close> after the first two of these writes.\<close>

definition unrotated_example :: "(bool \<times> byte list) zlibBatchEstimator" where
  "unrotated_example =
     \<lparr>b0 = 0x78 # 0xDA # replicate 10000 2 @ [0, 0, 0xFF, 0xFF],
      b1 = 0x78 # 0xDA # replicate 60000 1 @ 0 # 0 # 0xFF # 0xFF # replicate 10000 2 @ [0, 0, 0xFF, 0xFF],
      w0 = \<lparr>target = I0, zstate = (True, [])\<rparr>,
      w1 = \<lparr>target = I1, zstate = (True, [])\<rparr>\<rparr>"

section \<open>Estimator worker\<close>

text \<open>
  Blocks and transactions come from the chain library; the worker uses the type tag, the
  serialisation (\<^verbatim>\<open>MarshalBinary\<close>, \<open>None\<close> when it returns an error), the block number
  and the list of transactions. A job carries a block pointer, \<open>None\<close> for \<^verbatim>\<open>nil\<close>.
\<close>

record Transaction =
  TxType :: byte
  MarshalBinary :: "byte list option"

definition DepositTxType :: byte where
  "DepositTxType = 0x7E"

record Block =
  NumberU64 :: uint64
  Transactions :: "Transaction list"

type_synonym BlockJob = "Block option"

datatype logMsg =
    WorkerNilBlock
  | WorkerMarshalError
  | BootstrapComplete int
  | FetcherFailed uint64

text \<open>The two settings of \<^verbatim>\<open>main\<close> the worker reads.\<close>

record config =
  trimSignature :: bool
  bootstrapTxs :: int

record 'z worker =
  zlibBestBatchEstimator :: "'z zlibBatchEstimator"
  bootstrapCount :: int
  bootstrapDone :: bool
  resultChan :: "TxResult list"
  workerLog :: "logMsg list"

definition newWorker :: "'z zlib \<Rightarrow> 'z worker" where
  "newWorker Z =
     \<lparr>zlibBestBatchEstimator = newZlibBatchEstimator Z, bootstrapCount = 0,
      bootstrapDone = False, resultChan = [], workerLog = []\<rparr>"

text \<open>The counting loop \<^verbatim>\<open>for _, byte := range b\<close> with its two \<^verbatim>\<open>uint32\<close> counters.\<close>

fun countBytes :: "byte list \<Rightarrow> uint32 \<times> uint32 \<Rightarrow> uint32 \<times> uint32" where
  "countBytes [] (zeroes, nonZeroes) = (zeroes, nonZeroes)"
| "countBytes (x # xs) (zeroes, nonZeroes) =
     (if x = 0 then countBytes xs (zeroes + 1, nonZeroes)
      else countBytes xs (zeroes, nonZeroes + 1))"

text \<open>\<^verbatim>\<open>if trimSignature && len(b) >= 68 { b = b[:len(b)-68] }\<close>.\<close>

definition trimmed :: "config \<Rightarrow> byte list \<Rightarrow> byte list" where
  "trimmed cfg b = (if trimSignature cfg \<and> length b \<ge> 68 then take (length b - 68) b else b)"

text \<open>The body of \<^verbatim>\<open>for _, tx := range block.Transactions()\<close>.\<close>

definition processTx ::
  "config \<Rightarrow> 'z zlib \<Rightarrow> Block \<Rightarrow> Transaction \<Rightarrow> 'z worker \<Rightarrow> error + 'z worker" where
  "processTx cfg Z block tx w =
     (if TxType tx = DepositTxType then Inr w
      else case MarshalBinary tx of
        None \<Rightarrow> Inr (w\<lparr>workerLog := workerLog w @ [WorkerMarshalError]\<rparr>)
      | Some b' \<Rightarrow>
          (let b = trimmed cfg b'
           in if \<not> bootstrapDone w then
                (case write_est Z b (zlibBestBatchEstimator w) of
                   Inl x \<Rightarrow> Inl x
                 | Inr (_, e) \<Rightarrow>
                     (let c = bootstrapCount w + 1;
                          wa = w\<lparr>zlibBestBatchEstimator := e, bootstrapCount := c\<rparr>
                      in if c \<ge> bootstrapTxs cfg
                         then Inr (wa\<lparr>bootstrapDone := True,
                                      workerLog := workerLog wa @ [BootstrapComplete c]\<rparr>)
                         else Inr wa))
              else
                (case write_est Z b (zlibBestBatchEstimator w) of
                   Inl x \<Rightarrow> Inl x
                 | Inr (best, e) \<Rightarrow>
                     (case FlzCompressLen b of
                        None \<Rightarrow> Inl NoReturn
                      | Some (Inl x) \<Rightarrow> Inl x
                      | Some (Inr fastlz) \<Rightarrow>
                          (let (zeroes, nonZeroes) = countBytes b (0, 0)
                           in Inr (w\<lparr>zlibBestBatchEstimator := e,
                                     resultChan := resultChan w @
                                       [\<lparr>BlockNumber = NumberU64 block, Best = best,
                                         Fastlz = fastlz, Zeroes = zeroes,
                                         NonZeroes = nonZeroes\<rparr>]\<rparr>))))))"

fun processTxs ::
  "config \<Rightarrow> 'z zlib \<Rightarrow> Block \<Rightarrow> Transaction list \<Rightarrow> 'z worker \<Rightarrow> error + 'z worker" where
  "processTxs cfg Z block [] w = Inr w"
| "processTxs cfg Z block (tx # txs) w =
     (case processTx cfg Z block tx w of
        Inl x \<Rightarrow> Inl x
      | Inr wa \<Rightarrow> processTxs cfg Z block txs wa)"

text \<open>
  \<^verbatim>\<open>for job := range jobChan\<close>: the channel is the list of jobs in arrival order; the
  results sent to \<^verbatim>\<open>resultChan\<close> are collected in the worker's state.
\<close>

fun workerLoop :: "config \<Rightarrow> 'z zlib \<Rightarrow> BlockJob list \<Rightarrow> 'z worker \<Rightarrow> error + 'z worker" where
  "workerLoop cfg Z [] w = Inr w"
| "workerLoop cfg Z (None # jobs) w =
     workerLoop cfg Z jobs (w\<lparr>workerLog := workerLog w @ [WorkerNilBlock]\<rparr>)"
| "workerLoop cfg Z (Some block # jobs) w =
     (case processTxs cfg Z block (Transactions block) w of
        Inl x \<Rightarrow> Inl x
      | Inr wa \<Rightarrow> workerLoop cfg Z jobs wa)"

text \<open>
  Five blocks numbered 104 down to 100, in the order the coordinator dispatches them, each
  with two transactions of type 2 whose serialisations are four bytes long.
\<close>

definition example_block :: "uint64 \<Rightarrow> Block" where
  "example_block n =
     \<lparr>NumberU64 = n,
      Transactions =
        [\<lparr>TxType = 2, MarshalBinary = Some [2, 0, ucast n, 1]\<rparr>,
         \<lparr>TxType = 2, MarshalBinary = Some [2, 0, ucast n, 0]\<rparr>]\<rparr>"

definition example_jobs :: "BlockJob list" where
  "example_jobs = map (\<lambda>n. Some (example_block n)) [104, 103, 102, 101, 100]"

text \<open>
  A transaction the worker estimates: not a deposit, and serialised without error.
\<close>

definition eligible :: "Transaction \<Rightarrow> bool" where
  "eligible tx = (TxType tx \<noteq> DepositTxType \<and> MarshalBinary tx \<noteq> None)"

text \<open>The transactions of a list of jobs, in processing order (a nil block has none).\<close>

fun jobTxs :: "BlockJob list \<Rightarrow> Transaction list" where
  "jobTxs [] = []"
| "jobTxs (None # jobs) = jobTxs jobs"
| "jobTxs (Some blk # jobs) = Transactions blk @ jobTxs jobs"

text \<open>
  The number of eligible transactions the worker will still use up for bootstrapping: the
  branch \<^verbatim>\<open>!bootstrapDone\<close> runs at least once before the counter is compared with
  the threshold.
\<close>

definition toBootstrap :: "config \<Rightarrow> 'z worker \<Rightarrow> nat" where
  "toBootstrap cfg w =
     (if bootstrapDone w then 0 else nat (max 1 (bootstrapTxs cfg - bootstrapCount w)))"


text \<open>
  The bytes the worker estimates for a transaction, and what a record must say about them:
  the block number, and the two counts adding up to the number of bytes.
\<close>

definition payload :: "config \<Rightarrow> Transaction \<Rightarrow> byte list" where
  "payload cfg tx = (case MarshalBinary tx of None \<Rightarrow> [] | Some b \<Rightarrow> trimmed cfg b)"



text \<open>The settings \<^verbatim>\<open>main\<close> fixes: no signature trimming, a threshold of 1000.\<close>

definition shipped :: config where
  "shipped = \<lparr>trimSignature = False, bootstrapTxs = 1000\<rparr>"


section \<open>Block source and fetcher\<close>

text \<open>
  The local store, as far as \<^verbatim>\<open>LocalClient\<close> reads it through \<^verbatim>\<open>rawdb\<close>:
  \<^verbatim>\<open>ReadCanonicalHash\<close> gives the zero hash for a number the store does not hold,
  \<^verbatim>\<open>ReadHeaderNumber\<close> and \<^verbatim>\<open>ReadBlock\<close> give \<^verbatim>\<open>nil\<close> for what is missing.
\<close>

type_synonym Hash = "256 word"

record LocalClient =
  ReadCanonicalHash :: "uint64 \<Rightarrow> Hash"
  ReadHeadBlockHash :: Hash
  ReadHeaderNumber :: "Hash \<Rightarrow> uint64 option"
  ReadBlock :: "Hash \<Rightarrow> uint64 \<Rightarrow> Block option"

text \<open>A call returns a block pointer and an error, either of which can be \<^verbatim>\<open>nil\<close>.\<close>

type_synonym fetchResult = "Block option \<times> string option"

definition BlockByHash :: "LocalClient \<Rightarrow> Hash \<Rightarrow> fetchResult" where
  "BlockByHash c h =
     (case ReadHeaderNumber c h of
        None \<Rightarrow> (None, None)
      | Some number \<Rightarrow> (ReadBlock c h number, None))"

text \<open>
  The fetcher builds the argument with \<^verbatim>\<open>big.NewInt(int64(blockNum))\<close>, so the number is
  the 64-bit value it was built from: \<^verbatim>\<open>Int64()\<close> reads it as signed, \<^verbatim>\<open>Uint64()\<close> is
  called only when it is not negative.
\<close>

definition BlockByNumber :: "LocalClient \<Rightarrow> uint64 \<Rightarrow> fetchResult" where
  "BlockByNumber c number =
     (if sint number < 0 then BlockByHash c (ReadHeadBlockHash c)
      else let h = ReadCanonicalHash c number
           in if h = 0 then (None, None) else (ReadBlock c h number, None))"

text \<open>
  A client is a state with a \<^verbatim>\<open>BlockByNumber\<close> operation; a remote client can answer the
  same request differently from one attempt to the next, which the state accounts for.
\<close>

type_synonym 'c Client = "'c \<Rightarrow> uint64 \<Rightarrow> fetchResult \<times> 'c"

definition localClient :: "LocalClient Client" where
  "localClient c number = (BlockByNumber c number, c)"

text \<open>
  The state of one fetch: the client, the variables \<^verbatim>\<open>block\<close>, \<^verbatim>\<open>err\<close> and
  \<^verbatim>\<open>retryDelay\<close> (in milliseconds), the delays slept and the number of calls made.
  In the source \<^verbatim>\<open>err\<close> is a variable of \<^verbatim>\<open>main\<close> that all fetchers assign; the model
  follows one fetcher on its own.
\<close>

record 'c fetch =
  client :: 'c
  block :: "Block option"
  err :: "string option"
  retryDelay :: int
  slept :: "int list"
  calls :: nat

text \<open>\<^verbatim>\<open>for attempt := 0; attempt < maxRetries; attempt++\<close>.\<close>

function retryLoop :: "'c Client \<Rightarrow> uint64 \<Rightarrow> int \<Rightarrow> int \<Rightarrow> 'c fetch \<Rightarrow> 'c fetch" where
  "retryLoop cl blockNum maxRetries attempt f =
     (if attempt < maxRetries then
        (let (res, c) = cl (client f) blockNum;
             f1 = f\<lparr>client := c, block := fst res, err := snd res, calls := calls f + 1\<rparr>
         in if err f1 = None then f1
            else
              (let f2 = (if attempt < maxRetries - 1
                         then f1\<lparr>slept := slept f1 @ [retryDelay f1],
                                 retryDelay := retryDelay f1 * 2\<rparr>
                         else f1)
               in retryLoop cl blockNum maxRetries (attempt + 1) f2))
      else f)"
  by pat_completeness auto
termination
  by (relation "measure (\<lambda>(cl, blockNum, maxRetries, attempt, f). nat (maxRetries - attempt))") auto

declare retryLoop.simps [simp del]

text \<open>
  The body of \<^verbatim>\<open>for blockNum := range blockNumChan\<close>: at most 8 attempts starting from
  a delay of 100 ms, then either a logged drop or a job sent to \<^verbatim>\<open>jobChan\<close>. The result
  is the client, the jobs sent and the messages logged, with the state of the fetch.
\<close>

definition fetchBlock ::
  "'c Client \<Rightarrow> 'c \<Rightarrow> uint64 \<Rightarrow> 'c fetch \<times> BlockJob list \<times> logMsg list" where
  "fetchBlock cl c blockNum =
     (let f = retryLoop cl blockNum 8 0
                \<lparr>client = c, block = None, err = None, retryDelay = 100, slept = [], calls = 0\<rparr>
      in if err f \<noteq> None then (f, [], [FetcherFailed blockNum])
         else (f, [block f], []))"

section \<open>Properties of the result writer\<close>

lemma length_le32: "length (le32 v) = 4"
  by (simp add: le32_def)

lemma le32_decode_le32: "le32_decode (le32 v) = v"
  unfolding le32_decode_def le32_def
proof (rule bit_word_eqI)
  fix n :: nat
  assume "n < LENGTH(32)"
  then have n: "n < 32" by simp
  consider "n < 8" | "8 \<le> n" "n < 16" | "16 \<le> n" "n < 24" | "24 \<le> n"
    by linarith
  then show "bit (ucast ([ucast v, ucast (drop_bit 8 v), ucast (drop_bit 16 v), ucast (drop_bit 24 v) :: byte] ! 0)
        OR push_bit 8 (ucast ([ucast v, ucast (drop_bit 8 v), ucast (drop_bit 16 v), ucast (drop_bit 24 v) :: byte] ! 1))
        OR push_bit 16 (ucast ([ucast v, ucast (drop_bit 8 v), ucast (drop_bit 16 v), ucast (drop_bit 24 v) :: byte] ! 2))
        OR push_bit 24 (ucast ([ucast v, ucast (drop_bit 8 v), ucast (drop_bit 16 v), ucast (drop_bit 24 v) :: byte] ! 3)) :: uint32) n
      = bit v n"
    using n by cases (auto simp: bit_simps)
qed

lemma writeResult_eq: "writeResult out r = out @ record_bytes r"
  by (simp add: writeResult_def binaryWrite_def record_bytes_def)

lemma length_record_bytes: "length (record_bytes r) = 20"
  by (simp add: record_bytes_def length_le32)

lemma writer_eq: "writer out rs = out @ concat (map record_bytes rs)"
  by (induction rs arbitrary: out) (simp_all add: writeResult_eq)

text \<open>
  Claim C9. For every result the writer consumes, the bytes appended to the output are
  exactly five little-endian 32-bit fields in the order block number (its low 32 bits),
  zlib-best estimate, fastlz estimate, zero-byte count, non-zero-byte count: 20 bytes,
  and a run of results is the concatenation of their records with nothing before, between
  or after them.
\<close>

theorem C9_writer_record_layout:
  "writeResult out r
     = out @ le32 (ucast (BlockNumber r)) @ le32 (Best r) @ le32 (Fastlz r)
         @ le32 (Zeroes r) @ le32 (NonZeroes r)
   \<and> length (writeResult out r) = length out + 20
   \<and> map le32_decode
        [take 4 (drop (length out) (writeResult out r)),
         take 4 (drop (length out + 4) (writeResult out r)),
         take 4 (drop (length out + 8) (writeResult out r)),
         take 4 (drop (length out + 12) (writeResult out r)),
         take 4 (drop (length out + 16) (writeResult out r))]
       = [ucast (BlockNumber r), Best r, Fastlz r, Zeroes r, NonZeroes r]
   \<and> writer out rs = out @ concat (map record_bytes rs)
   \<and> length (writer out rs) = length out + 20 * length rs"
proof -
  have len: "length (concat (map record_bytes xs)) = 20 * length xs" for xs
    by (induction xs) (simp_all add: length_record_bytes)
  show ?thesis
    by (simp add: writeResult_eq record_bytes_def length_le32 le32_decode_le32 writer_eq len)
qed

section \<open>Properties of the FastLZ length estimator\<close>

subsection \<open>Short inputs\<close>

lemma flz_loop_limit0: "flz_loop ib 0 ht n a ip = Some (Inr (n, a))"
  by (subst flz_loop.simps) simp

lemma literals_short:
  assumes "k \<le> 12"
  shows "literals 0 (word_of_nat k) = word_of_nat (k + (k + 31) div 32)"
proof -
  let ?w = "word_of_nat k :: uint32"
  have u: "unat ?w = k" using assms by (simp add: unat_of_nat)
  have lt: "?w < 0x20" using u assms by (simp add: word_less_nat_alt)
  have d: "?w div 0x20 = 0" using lt by (rule div_word_less)
  have m: "?w mod 0x20 = ?w" using lt by (rule mod_word_less)
  show ?thesis
  proof (cases "k = 0")
    case True
    then show ?thesis by (simp add: literals_def)
  next
    case False
    then have nz: "?w \<noteq> 0" using u by (metis unat_0)
    have "k + (k + 31) div 32 = k + 1" using False assms by simp
    then show ?thesis using d m nz by (simp add: literals_def)
  qed
qed

text \<open>
  Claim C5. For every input of length 0 to 12 the outer loop is not entered (its limit is
  0, so no window is hashed and no match is searched) and \<open>FlzCompressLen\<close> returns the
  all-literal cost \<open>length + ceil (length / 32)\<close>.
\<close>

theorem C5_short_inputs_all_literal:
  "length ib \<le> 12 \<Longrightarrow>
     FlzCompressLen ib = Some (Inr (word_of_nat (length ib + (length ib + 31) div 32)))
     \<and> unat (word_of_nat (length ib + (length ib + 31) div 32) :: uint32)
         = length ib + (length ib + 31) div 32
     \<and> ipLimit ib = 0
     \<and> flz_loop ib (ipLimit ib) (replicate 8192 0) 0 0 (0 + 2) = Some (Inr (0, 0))"
proof -
  assume le: "length ib \<le> 12"
  have a: "FlzCompressLen ib = Some (Inr (literals 0 (word_of_nat (length ib))))"
    using le by (simp add: FlzCompressLen_def ipLimit_def flz_loop_limit0)
  have b: "length ib + (length ib + 31) div 32 < 2 ^ 32" using le by simp
  have c: "unat (word_of_nat (length ib + (length ib + 31) div 32) :: uint32)
         = length ib + (length ib + 31) div 32"
    using b unfolding unat_of_nat by simp
  have d: "ipLimit ib = 0" using le by (simp add: ipLimit_def)
  show ?thesis using a literals_short [OF le] c
    by (simp only: d flz_loop_limit0 simp_thms)
qed

theorem C5_short_inputs_witness:
  "length [1, 2, 3, 4, 5 :: byte] \<le> 12 \<and> FlzCompressLen [1, 2, 3, 4, 5] = Some (Inr 6)"
  using C5_short_inputs_all_literal [of "[1, 2, 3, 4, 5]"] by simp

subsection \<open>A long run of equal bytes\<close>

lemma idx_replicate: "unat i < n \<Longrightarrow> idx (replicate n c) i = Inr c"
  by (simp add: idx_def)

lemma unat_add_small:
  fixes a b :: uint32
  shows "unat a + unat b < 2 ^ 32 \<Longrightarrow> unat (a + b) = unat a + unat b"
  by (simp add: unat_word_ariths)

lemma cmp_loop_replicate:
  assumes "unat p + unat e \<le> n" "unat q + unat e \<le> n" "n < 2 ^ 32" "l \<le> e"
  shows "cmp_loop (replicate n c) p q e l = Inr e"
  using assms(4)
proof (induction "unat e - unat l" arbitrary: l)
  case 0
  then have "l = e" by (simp add: word_le_nat_alt word_unat_eq_iff)
  then show ?case by (subst cmp_loop.simps) simp
next
  case (Suc k)
  then have lt: "l < e" by (simp add: word_less_nat_alt)
  then have ul: "unat l < unat e" by (simp add: word_less_nat_alt)
  have l1: "unat (l + 1) = unat l + 1"
    using ul assms(1,3) by (simp add: unat_word_ariths)
  have pl: "unat (p + l) = unat p + unat l"
    using ul assms(1,3) by (intro unat_add_small) simp
  have ql: "unat (q + l) = unat q + unat l"
    using ul assms(2,3) by (intro unat_add_small) simp
  have ip: "idx (replicate n c) (p + l) = Inr c"
    using pl ul assms(1) by (intro idx_replicate) simp
  have iq: "idx (replicate n c) (q + l) = Inr c"
    using ql ul assms(2) by (intro idx_replicate) simp
  have le: "l + 1 \<le> e" using l1 ul by (simp add: word_le_nat_alt)
  have k: "k = unat e - unat (l + 1)" using Suc(2) l1 by simp
  have "cmp_loop (replicate n c) p q e l = cmp_loop (replicate n c) p q e (l + 1)"
    using lt ip iq by (subst cmp_loop.simps) simp
  also have "\<dots> = Inr e" by (rule Suc(1) [OF k le])
  finally show ?case .
qed

lemma cmp_zeros: "cmp (replicate 1000 0) 3 5 996 = Inr 991"
  unfolding cmp_def
  using cmp_loop_replicate [of 3 991 1000 5 0 0] by simp

lemma hash0: "hash 0 = 0"
  by (simp add: hash_def)

lemma u24_zeros_2: "u24 (replicate 1000 0) 2 = Inr 0"
  by (simp add: u24_def idx_def)
lemma u24_zeros_0: "u24 (replicate 1000 0) 0 = Inr 0"
  by (simp add: u24_def idx_def)
lemma u24_zeros_993: "u24 (replicate 1000 0) 993 = Inr 0"
  by (simp add: u24_def idx_def)
lemma u24_zeros_994: "u24 (replicate 1000 0) 994 = Inr 0"
  by (simp add: u24_def idx_def)

lemma scan_zeros:
  "scan (replicate 1000 0) 987 (replicate 8192 0) 2 = Inr (3, 0, (replicate 8192 0)[0 := 2])"
  by (subst scan.simps) (simp add: u24_zeros_2 u24_zeros_0 hash0 htGet_def htSet_def)

lemma flz_loop_zeros:
  "flz_loop (replicate 1000 0) 987 (replicate 8192 0) 0 0 2 = Some (Inr (15, 995))"
  apply (subst flz_loop.simps)
  apply (simp add: scan_zeros cmp_zeros setNextHash_def u24_zeros_993 u24_zeros_994 hash0 htSet_def)
  apply (subst flz_loop.simps)
  apply (simp add: literals_def match_def)
  done

text \<open>
  Claim C6. On 1000 zero bytes \<open>FlzCompressLen\<close> returns 21, far below 1000: the cost of
  two literals (3 bytes), of one match of length 991 found at position 2 against position 0
  (12 bytes) and of the 5 literals left after position 995 (6 bytes).
\<close>

theorem C6_thousand_zero_bytes:
  "FlzCompressLen (replicate 1000 0) = Some (Inr 21)
   \<and> literals (match (literals 0 2) 991) 5 = 21
   \<and> unat (21 :: uint32) < 1000"
  by (simp add: FlzCompressLen_def ipLimit_def flz_loop_zeros literals_def match_def)

subsection \<open>Every index is in range\<close>

lemma unat_add_le: "unat ((a :: uint32) + b) \<le> unat a + unat b"
  by (simp add: unat_word_ariths)

lemma hash_bound: "unat (hash v) < 8192"
proof -
  have "hash v \<le> 0x1fff" unfolding hash_def by (rule word_and_le1)
  then have "unat (hash v) \<le> unat (0x1fff :: uint32)" by (simp add: word_le_nat_alt)
  then show ?thesis by simp
qed

lemma idx_Inr: "unat i < length ib \<Longrightarrow> idx ib i = Inr (ib ! unat i)"
  by (simp add: idx_def)

lemma u24_Inr:
  assumes "unat i + 2 < length ib"
  shows "\<exists>v. u24 ib i = Inr v"
proof -
  have a: "unat (i + 1) \<le> unat i + 1" using unat_add_le [of i 1] by simp
  have b: "unat (i + 2) \<le> unat i + 2" using unat_add_le [of i 2] by simp
  show ?thesis using assms a b by (simp add: u24_def idx_def)
qed

lemma htGet_Inr: "length ht = 8192 \<Longrightarrow> htGet ht (hash s) = Inr (ht ! unat (hash s))"
  using hash_bound [of s] by (simp add: htGet_def)

lemma htSet_Inr: "length ht = 8192 \<Longrightarrow> htSet ht (hash s) v = Inr (ht[unat (hash s) := v])"
  using hash_bound [of s] by (simp add: htSet_def)

lemma setNextHash_Inr:
  assumes "u24 ib ip = Inr s" "length ht = 8192"
  shows "setNextHash ib ht ip = Inr (ht[unat (hash s) := ip], ip + 1)"
  using assms by (simp add: setNextHash_def htSet_Inr)

lemma cmp_loop_safe:
  "unat p \<le> unat q \<Longrightarrow> unat q + B \<le> length ib \<Longrightarrow> unat e \<le> B \<Longrightarrow> unat l \<le> B
     \<Longrightarrow> \<exists>r. cmp_loop ib p q e l = Inr r \<and> unat r \<le> B"
proof (induction ib p q e l rule: cmp_loop.induct)
  case (1 ib p q e l)
  show ?case
  proof (cases "l < e")
    case False
    then show ?thesis using 1(5) by (subst cmp_loop.simps) simp
  next
    case True
    then have ul: "unat l < unat e" by (simp add: word_less_nat_alt)
    have e32: "unat e < 2 ^ 32" using unsigned_less [of e] by simp
    have l1: "unat (l + 1) = unat l + 1" using ul e32 by (simp add: unat_word_ariths)
    have pl: "unat (p + l) < length ib"
      using unat_add_le [of p l] ul 1(2,3,4) by linarith
    have ql: "unat (q + l) < length ib"
      using unat_add_le [of q l] ul 1(3,4) by linarith
    let ?e = "if ib ! unat (p + l) \<noteq> ib ! unat (q + l) then 0 else e"
    have ih: "\<exists>r. cmp_loop ib p q ?e (l + 1) = Inr r \<and> unat r \<le> B"
    proof (rule 1(1) [OF True idx_Inr [OF pl] idx_Inr [OF ql] 1(2) 1(3)])
      show "unat ?e \<le> B" using 1(4) by simp
      show "unat (l + 1) \<le> B" using l1 ul 1(4) by simp
    qed
    have "cmp_loop ib p q e l = cmp_loop ib p q ?e (l + 1)"
      using True by (subst cmp_loop.simps) (simp add: idx_Inr [OF pl] idx_Inr [OF ql])
    then show ?thesis using ih by simp
  qed
qed

lemma scan_safe:
  "unat lim + 13 \<le> length ib \<Longrightarrow> length ht = 8192 \<Longrightarrow> \<forall>j<8192. unat (ht ! j) < unat ip
     \<Longrightarrow> unat ip \<le> unat lim
     \<Longrightarrow> \<exists>ip1 r ht1. scan ib lim ht ip = Inr (ip1, r, ht1) \<and> length ht1 = 8192
           \<and> (ip1 < lim \<longrightarrow> unat ip < unat ip1 \<and> unat r + 1 < unat ip1
                 \<and> (\<forall>j<8192. unat (ht1 ! j) < unat ip1))"
proof (induction ib lim ht ip rule: scan.induct)
  case (1 ib lim ht ip)
  note lim = 1(3) and len = 1(4) and ent = 1(5) and ipl = 1(6)
  obtain s where s: "u24 ib ip = Inr s"
    using u24_Inr [of ip ib] lim ipl by auto
  define r where "r = ht ! unat (hash s)"
  define ht1 where "ht1 = ht[unat (hash s) := ip]"
  have g: "htGet ht (hash s) = Inr r" by (simp add: htGet_Inr [OF len] r_def)
  have st: "htSet ht (hash s) ip = Inr ht1" by (simp add: htSet_Inr [OF len] ht1_def)
  have len1: "length ht1 = 8192" by (simp add: ht1_def len)
  have rlt: "unat r < unat ip" using ent hash_bound [of s] by (simp add: r_def)
  have ent1: "\<forall>j<8192. unat (ht1 ! j) \<le> unat ip"
  proof (intro allI impI)
    fix j :: nat
    assume "j < 8192"
    then show "unat (ht1 ! j) \<le> unat ip"
      using ent len by (cases "j = unat (hash s)") (auto simp: ht1_def dest: less_imp_le)
  qed
  show ?case
  proof (cases "lim \<le> ip")
    case True
    have "scan ib lim ht ip = Inr (ip, r, ht1)"
      using True by (subst scan.simps) (simp add: s g st)
    moreover have "\<not> ip < lim" using True by simp
    ultimately show ?thesis using len1 by simp
  next
    case False
    then have lt: "unat ip < unat lim" by (simp add: word_le_nat_alt)
    have l32: "unat lim < 2 ^ 32" using unsigned_less [of lim] by simp
    have ip1: "unat (ip + 1) = unat ip + 1" using lt l32 by (simp add: unat_word_ariths)
    have ent1': "\<forall>j<8192. unat (ht1 ! j) < unat (ip + 1)" using ent1 ip1 by (simp add: less_Suc_eq_le)
    have ipl1: "unat (ip + 1) \<le> unat lim" using ip1 lt by simp
    show ?thesis
    proof (cases "ip - r \<le> 0x1fff")
      case dle: True
      obtain t where t: "u24 ib r = Inr t"
        using u24_Inr [of r ib] lim ipl rlt by auto
      show ?thesis
      proof (cases "s = t")
        case True
        have t': "u24 ib r = Inr s" using t True by simp
        have "scan ib lim ht ip = Inr (ip + 1, r, ht1)"
          using False dle by (subst scan.simps) (simp add: s g st t')
        then show ?thesis using len1 ip1 rlt ent1' by simp
      next
        case neq: False
        have eq: "scan ib lim ht ip = scan ib lim ht1 (ip + 1)"
          using False dle neq by (subst scan.simps) (simp add: s g st t)
        obtain ipa ra hta where
          a: "scan ib lim ht1 (ip + 1) = Inr (ipa, ra, hta)" "length hta = 8192"
          and b: "ipa < lim \<longrightarrow> unat (ip + 1) < unat ipa \<and> unat ra + 1 < unat ipa
                 \<and> (\<forall>j<8192. unat (hta ! j) < unat ipa)"
          using 1(1) [OF s g st False dle t neq lim len1 ent1' ipl1] by blast
        show ?thesis using a b ip1 by (auto simp: eq)
      qed
    next
      case dgt: False
      have eq: "scan ib lim ht ip = scan ib lim ht1 (ip + 1)"
        using False dgt by (subst scan.simps) (simp add: s g st)
      obtain ipa ra hta where
        a: "scan ib lim ht1 (ip + 1) = Inr (ipa, ra, hta)" "length hta = 8192"
        and b: "ipa < lim \<longrightarrow> unat (ip + 1) < unat ipa \<and> unat ra + 1 < unat ipa
               \<and> (\<forall>j<8192. unat (hta ! j) < unat ipa)"
        using 1(2) [OF s g st False dgt lim len1 ent1' ipl1] by blast
      show ?thesis using a b ip1 by (auto simp: eq)
    qed
  qed
qed

lemma flz_loop_returns:
  assumes lim: "unat lim + 13 \<le> length ib" and nowrap: "unat lim + 13 < 2 ^ 32"
  shows "length ht = 8192 \<Longrightarrow> \<forall>j<8192. unat (ht ! j) < unat ip
     \<Longrightarrow> \<exists>n' a'. flz_loop ib lim ht n a ip = Some (Inr (n', a'))"
proof (induction "unat lim - unat ip" arbitrary: ht n a ip rule: less_induct)
  case less
  note len = less(2) and ent = less(3)
  show ?case
  proof (cases "ip < lim")
    case False
    then show ?thesis by (subst flz_loop.simps) simp
  next
    case True
    then have ipl: "unat ip < unat lim" by (simp add: word_less_nat_alt)
    then have ipl': "unat ip \<le> unat lim" by simp
    obtain ip1 r ht1 where sc: "scan ib lim ht ip = Inr (ip1, r, ht1)"
      and len1: "length ht1 = 8192"
      and post: "ip1 < lim \<longrightarrow> unat ip < unat ip1 \<and> unat r + 1 < unat ip1
                 \<and> (\<forall>j<8192. unat (ht1 ! j) < unat ip1)"
      using scan_safe [OF lim len ent ipl'] by blast
    show ?thesis
    proof (cases "lim \<le> ip1")
      case True
      then show ?thesis using \<open>ip < lim\<close> by (subst flz_loop.simps) (simp add: sc)
    next
      case False
      then have lt1: "ip1 < lim" by simp
      then have ul1: "unat ip1 < unat lim" by (simp add: word_less_nat_alt)
      from post lt1 have p1: "unat ip < unat ip1" and p2: "unat r + 1 < unat ip1"
        and p3: "\<forall>j<8192. unat (ht1 ! j) < unat ip1" by simp_all
      define ip2 where "ip2 = ip1 - 1"
      have "ip1 \<noteq> 0" using p1 by auto
      then have "unat ip2 = unat ip1 - 1" by (simp add: ip2_def unat_minus_one)
      then have u2: "unat ip2 + 1 = unat ip1" using p1 by simp
      have l32: "unat lim + 13 < 4294967296" using nowrap by simp
      have up: "unat (r + 3) = unat r + 3"
        using p2 ul1 l32 by (intro unat_add_small [THEN trans]) simp_all
      have uq: "unat (ip2 + 3) = unat ip2 + 3"
        using u2 ul1 l32 by (intro unat_add_small [THEN trans]) simp_all
      have ue: "unat (lim + 9) = unat lim + 9"
        using l32 by (intro unat_add_small [THEN trans]) simp_all
      have qe: "ip2 + 3 \<le> lim + 9" using uq ue u2 ul1 by (simp add: word_le_nat_alt)
      have ud: "unat (lim + 9 - (ip2 + 3)) = unat lim + 6 - unat ip2"
      proof -
        have "unat (lim + 9 - (ip2 + 3)) = unat (lim + 9) - unat (ip2 + 3)"
          by (rule unat_sub [OF qe])
        also have "\<dots> = unat lim + 6 - unat ip2" unfolding uq ue by simp
        finally show ?thesis .
      qed
      have "\<exists>l. cmp_loop ib (r + 3) (ip2 + 3) (lim + 9 - (ip2 + 3)) 0 = Inr l
              \<and> unat l \<le> unat lim + 6 - unat ip2"
      proof (rule cmp_loop_safe)
        show "unat (r + 3) \<le> unat (ip2 + 3)" using up uq u2 p2 by linarith
        show "unat (ip2 + 3) + (unat lim + 6 - unat ip2) \<le> length ib"
          using uq u2 ul1 lim by linarith
        show "unat (lim + 9 - (ip2 + 3)) \<le> unat lim + 6 - unat ip2" using ud by simp
        show "unat (0 :: uint32) \<le> unat lim + 6 - unat ip2" by simp
      qed
      then obtain l where c: "cmp ib (r + 3) (ip2 + 3) (lim + 9) = Inr l"
        and lb0: "unat l \<le> unat lim + 6 - unat ip2"
        unfolding cmp_def by blast
      have lb: "unat ip2 + unat l \<le> unat lim + 6" using lb0 u2 ul1 by linarith
      have u3: "unat (ip2 + l) = unat ip2 + unat l"
        using lb l32 by (intro unat_add_small) simp
      have "unat (ip2 + l) + 2 < length ib" using u3 lb lim by linarith
      then obtain s1 where s1: "u24 ib (ip2 + l) = Inr s1"
        using u24_Inr by blast
      define ht2 where "ht2 = ht1[unat (hash s1) := ip2 + l]"
      have n1: "setNextHash ib ht1 (ip2 + l) = Inr (ht2, ip2 + l + 1)"
        by (simp add: setNextHash_Inr [OF s1 len1] ht2_def)
      have len2: "length ht2 = 8192" by (simp add: ht2_def len1)
      have u4: "unat (ip2 + l + 1) = unat ip2 + unat l + 1"
        using u3 lb l32 by (intro unat_add_small [THEN trans]) simp_all
      have "unat (ip2 + l + 1) + 2 < length ib" using u4 lb lim by linarith
      then obtain s2 where s2: "u24 ib (ip2 + l + 1) = Inr s2"
        using u24_Inr by blast
      define ht3 where "ht3 = ht2[unat (hash s2) := ip2 + l + 1]"
      have n2: "setNextHash ib ht2 (ip2 + l + 1) = Inr (ht3, ip2 + l + 1 + 1)"
        by (simp add: setNextHash_Inr [OF s2 len2] ht3_def)
      have len3: "length ht3 = 8192" by (simp add: ht3_def len2)
      define ip4 where "ip4 = ip2 + l + 1 + 1"
      have u5: "unat ip4 = unat ip2 + unat l + 2"
        unfolding ip4_def
        using u4 lb l32 by (intro unat_add_small [THEN trans]) simp_all
      have ent3: "\<forall>j<8192. unat (ht3 ! j) < unat ip4"
      proof (intro allI impI)
        fix j :: nat
        assume j: "j < 8192"
        have "ht3 ! j = ip2 + l + 1 \<or> ht3 ! j = ip2 + l \<or> ht3 ! j = ht1 ! j"
          using j len1 len2
          by (cases "j = unat (hash s2)"; cases "j = unat (hash s1)")
             (simp_all add: ht3_def ht2_def)
        moreover have "unat (ht1 ! j) < unat ip1" using p3 j by simp
        ultimately show "unat (ht3 ! j) < unat ip4"
          using u3 u4 u5 u2 by (elim disjE) simp_all
      qed
      have dec: "unat lim - unat ip4 < unat lim - unat ip"
        using u5 u2 p1 ipl by linarith
      define n1' where "n1' = (if ip2 > a then literals n (ip2 - a) else n)"
      have eq: "flz_loop ib lim ht n a ip = flz_loop ib lim ht3 (match n1' l) ip4 ip4"
        using \<open>ip < lim\<close> False
        by (subst flz_loop.simps)
           (simp add: sc c n1 n2 Let_def ip2_def [symmetric] n1'_def ip4_def)
      show ?thesis
        using less(1) [OF dec len3 ent3] by (simp add: eq)
    qed
  qed
qed

lemma idx_huge: "2 ^ 32 \<le> length ib \<Longrightarrow> idx ib i = Inr (ib ! unat i)"
proof -
  assume big: "2 ^ 32 \<le> length ib"
  have "unat i < 2 ^ 32" using unsigned_less [of i] by simp
  then show ?thesis using big by (simp add: idx_def)
qed

lemma u24_huge: "2 ^ 32 \<le> length ib \<Longrightarrow> \<exists>v. u24 ib i = Inr v"
  by (simp add: u24_def idx_huge)

lemma cmp_loop_huge: "2 ^ 32 \<le> length ib \<Longrightarrow> \<exists>r. cmp_loop ib p q e l = Inr r"
proof (induction ib p q e l rule: cmp_loop.induct)
  case (1 ib p q e l)
  show ?case
  proof (cases "l < e")
    case False
    then show ?thesis by (subst cmp_loop.simps) simp
  next
    case True
    show ?thesis
      using 1(1) [OF True idx_huge [OF 1(2)] idx_huge [OF 1(2)] 1(2)] True
      by (subst cmp_loop.simps) (simp add: idx_huge [OF 1(2)])
  qed
qed

lemma scan_huge:
  "2 ^ 32 \<le> length ib \<Longrightarrow> length ht = 8192
     \<Longrightarrow> \<exists>ip1 r ht1. scan ib lim ht ip = Inr (ip1, r, ht1) \<and> length ht1 = 8192"
proof (induction ib lim ht ip rule: scan.induct)
  case (1 ib lim ht ip)
  note big = 1(3) and len = 1(4)
  obtain s where s: "u24 ib ip = Inr s" using u24_huge [OF big] by blast
  define r where "r = ht ! unat (hash s)"
  define ht1 where "ht1 = ht[unat (hash s) := ip]"
  have g: "htGet ht (hash s) = Inr r" by (simp add: htGet_Inr [OF len] r_def)
  have st: "htSet ht (hash s) ip = Inr ht1" by (simp add: htSet_Inr [OF len] ht1_def)
  have len1: "length ht1 = 8192" by (simp add: ht1_def len)
  obtain t where t: "u24 ib r = Inr t" using u24_huge [OF big] by blast
  show ?case
  proof (cases "lim \<le> ip")
    case True
    then show ?thesis using len1 by (subst scan.simps) (simp add: s g st)
  next
    case False
    show ?thesis
    proof (cases "ip - r \<le> 0x1fff")
      case dle: True
      show ?thesis
      proof (cases "s = t")
        case True
        have t': "u24 ib r = Inr s" using t True by simp
        show ?thesis using False dle len1 by (subst scan.simps) (simp add: s g st t')
      next
        case neq: False
        have "scan ib lim ht ip = scan ib lim ht1 (ip + 1)"
          using False dle neq by (subst scan.simps) (simp add: s g st t)
        then show ?thesis using 1(1) [OF s g st False dle t neq big len1] by simp
      qed
    next
      case dgt: False
      have "scan ib lim ht ip = scan ib lim ht1 (ip + 1)"
        using False dgt by (subst scan.simps) (simp add: s g st)
      then show ?thesis using 1(2) [OF s g st False dgt big len1] by simp
    qed
  qed
qed

lemma flz_loop_huge_aux:
  assumes run: "flz_loop ib lim ht n a ip = Some y"
  shows "2 ^ 32 \<le> length ib \<longrightarrow> length ht = 8192 \<longrightarrow> (\<exists>v. y = Inr v)"
proof (rule flz_loop.raw_induct [OF _ run])
  fix f :: "byte list \<Rightarrow> uint32 \<Rightarrow> uint32 list \<Rightarrow> uint32 \<Rightarrow> uint32 \<Rightarrow> uint32
      \<Rightarrow> (error + uint32 \<times> uint32) option"
  fix ib lim ht n a ip y
  assume ih: "\<And>ib lim ht n a ip y. f ib lim ht n a ip = Some y
      \<Longrightarrow> 2 ^ 32 \<le> length ib \<longrightarrow> length ht = 8192 \<longrightarrow> (\<exists>v. y = Inr v)"
  assume body: "(if ip < lim then
        (case scan ib lim ht ip of Inl x \<Rightarrow> Some (Inl x) | Inr (ip1, r, ht1) \<Rightarrow>
           if ip1 \<ge> lim then Some (Inr (n, a))
           else
             let ip2 = ip1 - 1;
                 n1 = (if ip2 > a then literals n (ip2 - a) else n)
             in (case cmp ib (r + 3) (ip2 + 3) (lim + 9) of Inl x \<Rightarrow> Some (Inl x) | Inr l \<Rightarrow>
                  (case setNextHash ib ht1 (ip2 + l) of Inl x \<Rightarrow> Some (Inl x) | Inr (ht2, ip3) \<Rightarrow>
                    (case setNextHash ib ht2 ip3 of Inl x \<Rightarrow> Some (Inl x) | Inr (ht3, ip4) \<Rightarrow>
                       f ib lim ht3 (match n1 l) ip4 ip4))))
      else Some (Inr (n, a))) = Some y"
  show "2 ^ 32 \<le> length ib \<longrightarrow> length ht = 8192 \<longrightarrow> (\<exists>v. y = Inr v)"
  proof (intro impI)
  assume big: "2 ^ 32 \<le> length ib" and len: "length ht = 8192"
  show "\<exists>v. y = Inr v"
  proof (cases "ip < lim")
    case False
    then show ?thesis using body by auto
  next
    case True
    obtain ip1 r ht1 where sc: "scan ib lim ht ip = Inr (ip1, r, ht1)"
      and len1: "length ht1 = 8192"
      using scan_huge [OF big len] by blast
    show ?thesis
    proof (cases "lim \<le> ip1")
      case True
      then show ?thesis using body \<open>ip < lim\<close> by (auto simp: sc)
    next
      case False
      define ip2 where "ip2 = ip1 - 1"
      obtain l where c: "cmp ib (r + 3) (ip2 + 3) (lim + 9) = Inr l"
        unfolding cmp_def using cmp_loop_huge [OF big] by blast
      obtain s1 where s1: "u24 ib (ip2 + l) = Inr s1" using u24_huge [OF big] by blast
      define ht2 where "ht2 = ht1[unat (hash s1) := ip2 + l]"
      have n1: "setNextHash ib ht1 (ip2 + l) = Inr (ht2, ip2 + l + 1)"
        by (simp add: setNextHash_Inr [OF s1 len1] ht2_def)
      have len2: "length ht2 = 8192" by (simp add: ht2_def len1)
      obtain s2 where s2: "u24 ib (ip2 + l + 1) = Inr s2" using u24_huge [OF big] by blast
      define ht3 where "ht3 = ht2[unat (hash s2) := ip2 + l + 1]"
      have n2: "setNextHash ib ht2 (ip2 + l + 1) = Inr (ht3, ip2 + l + 1 + 1)"
        by (simp add: setNextHash_Inr [OF s2 len2] ht3_def)
      have len3: "length ht3 = 8192" by (simp add: ht3_def len2)
      define n1' where "n1' = (if ip2 > a then literals n (ip2 - a) else n)"
      have "f ib lim ht3 (match n1' l) (ip2 + l + 1 + 1) (ip2 + l + 1 + 1) = Some y"
        using body \<open>ip < lim\<close> False
        by (simp add: sc c n1 n2 Let_def ip2_def [symmetric] n1'_def)
      then show ?thesis using ih big len3 by blast
    qed
  qed
  qed
qed

lemma flz_loop_huge:
  "flz_loop ib lim ht n a ip = Some y \<Longrightarrow> 2 ^ 32 \<le> length ib \<Longrightarrow> length ht = 8192
     \<Longrightarrow> \<exists>v. y = Inr v"
  using flz_loop_huge_aux by blast

lemma unat_ipLimit:
  assumes "13 \<le> length ib" "length ib < 2 ^ 32"
  shows "unat (ipLimit ib) = length ib - 13"
proof -
  have u: "unat (word_of_nat (length ib) :: uint32) = length ib"
    using assms(2) by (simp add: unat_of_nat)
  have "(13 :: uint32) \<le> word_of_nat (length ib)"
    using u assms(1) by (simp add: word_le_nat_alt)
  then have "unat (word_of_nat (length ib) - 13 :: uint32) = unat (word_of_nat (length ib) :: uint32) - unat (13 :: uint32)"
    by (rule unat_sub)
  then show ?thesis using u assms(1) by (simp add: ipLimit_def)
qed

lemma FlzCompressLen_returns:
  assumes "length ib < 2 ^ 32"
  shows "\<exists>v. FlzCompressLen ib = Some (Inr v)"
proof (cases "length ib < 13")
  case True
  then show ?thesis by (simp add: FlzCompressLen_def ipLimit_def flz_loop_limit0)
next
  case False
  let ?lim = "ipLimit ib"
  have ul: "unat ?lim = length ib - 13" using False assms by (intro unat_ipLimit) simp_all
  have a: "unat ?lim + 13 \<le> length ib" using ul False by simp
  have b: "unat ?lim + 13 < 2 ^ 32" using ul False assms by simp
  have "\<exists>n' a'. flz_loop ib ?lim (replicate 8192 0) 0 0 (0 + 2) = Some (Inr (n', a'))"
    by (rule flz_loop_returns [OF a b]) simp_all
  then show ?thesis by (auto simp: FlzCompressLen_def)
qed

lemma FlzCompressLen_no_panic: "FlzCompressLen ib \<noteq> Some (Inl x)"
proof (cases "length ib < 2 ^ 32")
  case True
  then show ?thesis using FlzCompressLen_returns [of ib] by auto
next
  case False
  then have big: "2 ^ 32 \<le> length ib" by simp
  show ?thesis
  proof
    assume "FlzCompressLen ib = Some (Inl x)"
    then obtain lim where "flz_loop ib lim (replicate 8192 0) 0 0 (0 + 2) = Some (Inl x)"
      by (auto simp: FlzCompressLen_def split: option.splits sum.splits)
    then show False using flz_loop_huge [OF _ big, of lim "replicate 8192 0" 0 0 "0 + 2" "Inl x"]
      by simp
  qed
qed

text \<open>
  Claim C7. \<open>FlzCompressLen\<close> never reads past the end of its input: every read of the
  input (the 3-byte windows, the candidate taken from the table, the match extension) and
  every access to the table is checked in the model, and no run ends in an out-of-range
  index, whatever the input. The scan boundary is \<open>length - 13\<close>, and every input shorter
  than 4 GiB makes the function return.
\<close>

theorem C7_never_reads_past_end:
  "FlzCompressLen ib \<noteq> Some (Inl x)
   \<and> (13 \<le> length ib \<and> length ib < 2 ^ 32 \<longrightarrow> unat (ipLimit ib) = length ib - 13)
   \<and> (length ib < 2 ^ 32 \<longrightarrow> (\<exists>v. FlzCompressLen ib = Some (Inr v)))"
  using FlzCompressLen_no_panic [of ib x] FlzCompressLen_returns [of ib] unat_ipLimit [of ib]
  by blast

theorem C7_never_reads_past_end_witness:
  "13 \<le> length (replicate 1000 (0 :: byte)) \<and> length (replicate 1000 (0 :: byte)) < 2 ^ 32
   \<and> unat (ipLimit (replicate 1000 0)) = 987
   \<and> (\<exists>v. FlzCompressLen (replicate 1000 0) = Some (Inr v))
   \<and> FlzCompressLen (replicate 1000 0) \<noteq> Some (Inl OutOfBounds)"
  using C7_never_reads_past_end [of "replicate 1000 0" OutOfBounds] by simp

section \<open>Properties of the zlib batch estimator\<close>

lemma rotate_eq:
  "rotate Z e =
     \<lparr>b0 = [], b1 = b0 e,
      w0 = \<lparr>target = I1, zstate = zReset Z (zstate (w1 e))\<rparr>, w1 = w0 e\<rparr>"
  by (simp add: rotate_def Let_def)

lemma step1:
  "write_est storeZ (replicate 60000 1) (newZlibBatchEstimator storeZ)
     = Inr (60004,
         \<lparr>b0 = [], b1 = 0x78 # 0xDA # replicate 60000 1 @ [0, 0, 0xFF, 0xFF],
          w0 = \<lparr>target = I0, zstate = (False, [])\<rparr>,
          w1 = \<lparr>target = I1, zstate = (True, [])\<rparr>\<rparr>)"
  by (simp add: write_est_def writeFlush_def writerWrite_def writerFlush_def mirror_def
        writerAt_def setWriterAt_def appendAt_def storeZ_def newZlibBatchEstimator_def Let_def)

lemma step2:
  "write_est storeZ (replicate 10000 2)
         \<lparr>b0 = [], b1 = 0x78 # 0xDA # replicate 60000 1 @ [0, 0, 0xFF, 0xFF],
          w0 = \<lparr>target = I0, zstate = (False, [])\<rparr>,
          w1 = \<lparr>target = I1, zstate = (True, [])\<rparr>\<rparr>
     = Inr (10002,
         \<lparr>b0 = 0x78 # 0xDA # replicate 10000 2 @ [0, 0, 0xFF, 0xFF],
          b1 = 0x78 # 0xDA # replicate 60000 1 @ 0 # 0 # 0xFF # 0xFF # replicate 10000 2 @ [0, 0, 0xFF, 0xFF],
          w0 = \<lparr>target = I0, zstate = (True, [])\<rparr>,
          w1 = \<lparr>target = I1, zstate = (True, [])\<rparr>\<rparr>)"
  by (simp add: write_est_def writeFlush_def writerWrite_def writerFlush_def mirror_def
        writerAt_def setWriterAt_def appendAt_def storeZ_def Let_def)

lemma step3:
  "write_est storeZ (replicate 62000 3)
         \<lparr>b0 = 0x78 # 0xDA # replicate 10000 2 @ [0, 0, 0xFF, 0xFF],
          b1 = 0x78 # 0xDA # replicate 60000 1 @ 0 # 0 # 0xFF # 0xFF # replicate 10000 2 @ [0, 0, 0xFF, 0xFF],
          w0 = \<lparr>target = I0, zstate = (True, [])\<rparr>,
          w1 = \<lparr>target = I1, zstate = (True, [])\<rparr>\<rparr>
     = Inr (62002, rotated_example)"
  by (simp add: write_est_def writeFlush_def writerWrite_def writerFlush_def mirror_def
        writerAt_def setWriterAt_def appendAt_def storeZ_def Let_def rotate_eq rotated_example_def)

lemma reach_rotated:
  "writes storeZ [replicate 60000 1, replicate 10000 2, replicate 62000 3]
      (newZlibBatchEstimator storeZ) = Inr ([60004, 10002, 62002], rotated_example)"
  by (simp add: step1 step2 step3)

lemma step4:
  "write_est storeZ [1, 2, 3] rotated_example
     = Inr (0, rotated_example
         \<lparr>b0 := [1, 2, 3, 0, 0, 0xFF, 0xFF],
           b1 := b1 rotated_example @ [0x78, 0xDA, 1, 2, 3, 0, 0, 0xFF, 0xFF],
           w0 := \<lparr>target = I1, zstate = (True, [])\<rparr>\<rparr>)"
  by (simp add: write_est_def writeFlush_def writerWrite_def writerFlush_def mirror_def
        writerAt_def setWriterAt_def appendAt_def storeZ_def Let_def rotated_example_def)

lemma appendAt_simps:
  "appendAt I0 bs e = e\<lparr>b0 := b0 e @ bs\<rparr>" "appendAt I1 bs e = e\<lparr>b1 := b1 e @ bs\<rparr>"
  by (simp_all add: appendAt_def)

lemma writeFlush_I1:
  assumes "writeFlush Z I1 p e = Inr e2"
  shows "\<exists>out. (if target (w1 e) = I1 then b1 e2 = b1 e @ out \<and> b0 e2 = b0 e
                 else b0 e2 = b0 e @ out \<and> b1 e2 = b1 e)
           \<and> w0 e2 = w0 e \<and> target (w1 e2) = target (w1 e)"
proof -
  obtain z1 o1 where a: "zWrite Z (zstate (w1 e)) p = Some (z1, o1)"
    using assms by (auto simp: writeFlush_def writerWrite_def writerAt_def split: option.splits)
  obtain z2 o2 where b: "zFlush Z z1 = Some (z2, o2)"
    using assms a
    by (cases "target (w1 e)")
       (auto simp: writeFlush_def writerWrite_def writerFlush_def writerAt_def setWriterAt_def
          appendAt_simps split: option.splits)
  show ?thesis
    using assms a b
    by (cases "target (w1 e)")
       (auto simp: writeFlush_def writerWrite_def writerFlush_def writerAt_def setWriterAt_def
          appendAt_simps intro!: exI [of _ "o1 @ o2"])
qed

lemma write_est_Inr:
  assumes "write_est Z p e = Inr (d, e')"
  shows "\<exists>e2 e3. writeFlush Z I1 p e = Inr e2 \<and> mirror Z p e2 = Inr e3
           \<and> e' = (if length (b1 e3) > 128 * 1024 then rotate Z e3 else e3)
           \<and> d = (if int (length (b1 e2)) - int (length (b1 e)) - 2 < 0 then 0
                  else word_of_int (int (length (b1 e2)) - int (length (b1 e)) - 2))"
  using assms by (auto simp: write_est_def Let_def split: sum.splits if_splits)

text \<open>Writer B targeting element 0: the measured buffer does not move.\<close>

lemma crossed_write_delta_zero:
  assumes "target (w1 e) = I0" "write_est Z p e = Inr (d, e')"
  shows "d = 0"
proof -
  obtain e2 where a: "writeFlush Z I1 p e = Inr e2"
    and d: "d = (if int (length (b1 e2)) - int (length (b1 e)) - 2 < 0 then 0
                  else word_of_int (int (length (b1 e2)) - int (length (b1 e)) - 2))"
    using write_est_Inr [OF assms(2)] by blast
  have "b1 e2 = b1 e" using writeFlush_I1 [OF a] assms(1) by auto
  then show ?thesis using d by simp
qed

lemma rotate_crosses_targets:
  "target (w1 (rotate Z e)) = target (w0 e) \<and> target (w0 (rotate Z e)) = I1
   \<and> b1 (rotate Z e) = b0 e \<and> b0 (rotate Z e) = []"
  by (simp add: rotate_eq)

text \<open>
  What \<^verbatim>\<open>write\<close> computes from its two measurements of element 1.
\<close>

lemma write_est_measures_element1:
  "write_est Z p e = Inr (delta, e') \<Longrightarrow>
     \<exists>e2. writeFlush Z I1 p e = Inr e2
        \<and> delta = word_of_int (max 0 (int (length (b1 e2)) - int (length (b1 e)) - 2))
        \<and> 0 \<le> uint delta
        \<and> (int (length (b1 e2)) - int (length (b1 e)) - 2 < 2 ^ 32
             \<longrightarrow> uint delta = max 0 (int (length (b1 e2)) - int (length (b1 e)) - 2))"
proof -
  assume run: "write_est Z p e = Inr (delta, e')"
  obtain e2 where a: "writeFlush Z I1 p e = Inr e2"
    and d: "delta = (if int (length (b1 e2)) - int (length (b1 e)) - 2 < 0 then 0
                  else word_of_int (int (length (b1 e2)) - int (length (b1 e)) - 2))"
    using write_est_Inr [OF run] by blast
  let ?x = "int (length (b1 e2)) - int (length (b1 e)) - 2"
  have d': "delta = word_of_int (max 0 ?x)" using d by (simp add: max_def)
  have "?x < 2 ^ 32 \<longrightarrow> uint delta = max 0 ?x"
  proof
    assume lt: "?x < 2 ^ 32"
    have "uint (word_of_int (max 0 ?x) :: uint32) = max 0 ?x mod 2 ^ 32"
      by (simp add: uint_word_of_int)
    also have "\<dots> = max 0 ?x" using lt by (intro mod_pos_pos_trivial) simp_all
    finally show "uint delta = max 0 ?x" using d' by simp
  qed
  then show ?thesis using a d' by (intro exI [of _ e2]) simp
qed

lemma writeFlush_I0:
  assumes "writeFlush Z I0 p e = Inr e2"
  shows "\<exists>out. (if target (w0 e) = I1 then b1 e2 = b1 e @ out \<and> b0 e2 = b0 e
                 else b0 e2 = b0 e @ out \<and> b1 e2 = b1 e)
           \<and> w1 e2 = w1 e \<and> target (w0 e2) = target (w0 e)"
proof -
  obtain z1 o1 where a: "zWrite Z (zstate (w0 e)) p = Some (z1, o1)"
    using assms by (auto simp: writeFlush_def writerWrite_def writerAt_def split: option.splits)
  obtain z2 o2 where b: "zFlush Z z1 = Some (z2, o2)"
    using assms a
    by (cases "target (w0 e)")
       (auto simp: writeFlush_def writerWrite_def writerFlush_def writerAt_def setWriterAt_def
          appendAt_simps split: option.splits)
  show ?thesis
    using assms a b
    by (cases "target (w0 e)")
       (auto simp: writeFlush_def writerWrite_def writerFlush_def writerAt_def setWriterAt_def
          appendAt_simps intro!: exI [of _ "o1 @ o2"])
qed

lemma mirror_targets:
  assumes "mirror Z p e = Inr e3"
  shows "target (w0 e3) = target (w0 e) \<and> w1 e3 = w1 e"
  using assms writeFlush_I0 [of Z p e e3]
  by (auto simp: mirror_def split: if_splits)

lemma step5:
  "write_est storeZ [1, 2, 3]
      (rotated_example
           \<lparr>b0 := [1, 2, 3, 0, 0, 0xFF, 0xFF],
             b1 := b1 rotated_example @ [0x78, 0xDA, 1, 2, 3, 0, 0, 0xFF, 0xFF],
             w0 := \<lparr>target = I1, zstate = (True, [])\<rparr>\<rparr>)
     = Inr (0, rotated_example
           \<lparr>b0 := [1, 2, 3, 0, 0, 0xFF, 0xFF, 1, 2, 3, 0, 0, 0xFF, 0xFF],
             b1 := b1 rotated_example @ [0x78, 0xDA, 1, 2, 3, 0, 0, 0xFF, 0xFF, 1, 2, 3, 0, 0, 0xFF, 0xFF],
             w0 := \<lparr>target = I1, zstate = (True, [])\<rparr>\<rparr>)"
  by (simp add: write_est_def writeFlush_def writerWrite_def writerFlush_def mirror_def
        writerAt_def setWriterAt_def appendAt_def storeZ_def Let_def rotated_example_def)

lemma write_est_cases:
  assumes "write_est Z p e = Inr (d, e')"
  shows "\<exists>e2 e3. writeFlush Z I1 p e = Inr e2 \<and> mirror Z p e2 = Inr e3
           \<and> e' = (if rotates Z p e then rotate Z e3 else e3)
           \<and> target (w0 e3) = target (w0 e) \<and> target (w1 e3) = target (w1 e)"
proof -
  obtain e2 e3 where a: "writeFlush Z I1 p e = Inr e2" and b: "mirror Z p e2 = Inr e3"
    and c: "e' = (if length (b1 e3) > 128 * 1024 then rotate Z e3 else e3)"
    using write_est_Inr [OF assms] by blast
  have r: "rotates Z p e = (length (b1 e3) > 128 * 1024)" by (simp add: rotates_def a b)
  have t: "target (w0 e3) = target (w0 e) \<and> target (w1 e3) = target (w1 e)"
    using writeFlush_I1 [OF a] mirror_targets [OF b] by auto
  show ?thesis using a b c r t by auto
qed

text \<open>Until the first rotation the writers keep the targets they were created with.\<close>

lemma new_targets:
  "target (w0 (newZlibBatchEstimator Z)) = I0 \<and> target (w1 (newZlibBatchEstimator Z)) = I1"
  by (simp add: newZlibBatchEstimator_def)

lemma targets_kept_without_rotation:
  assumes "write_est Z p e = Inr (d, e')" "\<not> rotates Z p e"
  shows "target (w0 e') = target (w0 e) \<and> target (w1 e') = target (w1 e)"
  using write_est_cases [OF assms(1)] assms(2) by auto

text \<open>What session B emits and where it lands: in the element its writer targets.\<close>

lemma writeFlush_I1_emitted:
  assumes "writeFlush Z I1 p e = Inr e2"
  shows "\<exists>out. (if target (w1 e) = I1 then b1 e2 = b1 e @ out \<and> b0 e2 = b0 e
                 else b0 e2 = b0 e @ out \<and> b1 e2 = b1 e)"
  using writeFlush_I1 [OF assms] by blast

text \<open>
  Claim C4, on the code. Let \<open>out\<close> be what session B (the writer at position 1) emits
  for a write and its flush. While that writer targets element 1 the result is
  \<open>max 0 (length out - 2)\<close>, as a \<^verbatim>\<open>uint32\<close>: the growth of B's output buffer less the
  two bytes. Once the writer targets element 0 (after the first rotation) its output grows
  element 0, the two measurements of element 1 are equal and the result is 0 whatever was
  emitted. The result is never negative.
\<close>

theorem C4_delta_ignores_detached_output:
  "write_est Z p e = Inr (delta, e') \<Longrightarrow>
     \<exists>e2 out. writeFlush Z I1 p e = Inr e2
        \<and> (if target (w1 e) = I1 then b1 e2 = b1 e @ out \<and> b0 e2 = b0 e
            else b0 e2 = b0 e @ out \<and> b1 e2 = b1 e)
        \<and> delta = (if target (w1 e) = I1 then word_of_int (max 0 (int (length out) - 2)) else 0)
        \<and> 0 \<le> uint delta"
proof -
  assume run: "write_est Z p e = Inr (delta, e')"
  obtain e2 where a: "writeFlush Z I1 p e = Inr e2"
    and d: "delta = (if int (length (b1 e2)) - int (length (b1 e)) - 2 < 0 then 0
                  else word_of_int (int (length (b1 e2)) - int (length (b1 e)) - 2))"
    using write_est_Inr [OF run] by blast
  obtain out where o: "if target (w1 e) = I1 then b1 e2 = b1 e @ out \<and> b0 e2 = b0 e
                 else b0 e2 = b0 e @ out \<and> b1 e2 = b1 e"
    using writeFlush_I1_emitted [OF a] by blast
  have "delta = (if target (w1 e) = I1 then word_of_int (max 0 (int (length out) - 2)) else 0)"
  proof (cases "target (w1 e) = I1")
    case True
    then have "int (length (b1 e2)) - int (length (b1 e)) - 2 = int (length out) - 2"
      using o by simp
    then show ?thesis using d True by (simp add: max_def)
  next
    case False
    then have "b1 e2 = b1 e" using o by simp
    then show ?thesis using d False by simp
  qed
  then show ?thesis using a o by (intro exI [of _ e2] exI [of _ out]) simp
qed

lemma writeFlush_rotated:
  "writeFlush storeZ I1 [1, 2, 3] rotated_example
     = Inr (rotated_example\<lparr>b0 := [1, 2, 3, 0, 0, 0xFF, 0xFF]\<rparr>)"
  by (simp add: writeFlush_def writerWrite_def writerFlush_def
        writerAt_def setWriterAt_def appendAt_def storeZ_def rotated_example_def)

theorem C4_delta_ignores_detached_output_witness:
  "writes storeZ [replicate 60000 1, replicate 10000 2, replicate 62000 3]
      (newZlibBatchEstimator storeZ) = Inr ([60004, 10002, 62002], rotated_example)
   \<and> target (w1 rotated_example) = I0
   \<and> writeFlush storeZ I1 [1, 2, 3] rotated_example
       = Inr (rotated_example\<lparr>b0 := [1, 2, 3, 0, 0, 0xFF, 0xFF]\<rparr>)
   \<and> b0 (rotated_example\<lparr>b0 := [1, 2, 3, 0, 0, 0xFF, 0xFF]\<rparr>)
       = b0 rotated_example @ [1, 2, 3, 0, 0, 0xFF, 0xFF]
   \<and> b1 (rotated_example\<lparr>b0 := [1, 2, 3, 0, 0, 0xFF, 0xFF]\<rparr>) = b1 rotated_example
   \<and> max 0 (int (length [1, 2, 3, 0, 0, 0xFF, 0xFF :: byte]) - 2) = 5
   \<and> fst (projr (write_est storeZ [1, 2, 3] rotated_example)) = 0"
proof -
  have tgt: "target (w1 rotated_example) = I0" by (simp add: rotated_example_def)
  have emp: "b0 rotated_example = []" by (simp add: rotated_example_def)
  obtain e2 out where a: "writeFlush storeZ I1 [1, 2, 3] rotated_example = Inr e2"
    and o: "if target (w1 rotated_example) = I1
            then b1 e2 = b1 rotated_example @ out \<and> b0 e2 = b0 rotated_example
            else b0 e2 = b0 rotated_example @ out \<and> b1 e2 = b1 rotated_example"
    using C4_delta_ignores_detached_output [OF step4] by blast
  have e2: "e2 = rotated_example\<lparr>b0 := [1, 2, 3, 0, 0, 0xFF, 0xFF]\<rparr>"
    using a writeFlush_rotated by simp
  have same: "b1 (rotated_example\<lparr>b0 := [1, 2, 3, 0, 0, 0xFF, 0xFF]\<rparr>) = b1 rotated_example"
    using o tgt e2 by simp
  have grown: "b0 (rotated_example\<lparr>b0 := [1, 2, 3, 0, 0, 0xFF, 0xFF]\<rparr>)
       = b0 rotated_example @ [1, 2, 3, 0, 0, 0xFF, 0xFF]"
    by (simp add: emp)
  have five: "max 0 (int (length [1, 2, 3, 0, 0, 0xFF, 0xFF :: byte]) - 2) = 5" by simp
  have r: "fst (projr (write_est storeZ [1, 2, 3] rotated_example)) = 0"
    by (simp add: step4)
  show ?thesis
    by (intro conjI reach_rotated tgt writeFlush_rotated grown same five r)
qed

text \<open>
  Claim C1, on the code. A write that takes element 1 past 128 KB rotates: the new
  element 1 is the old element 0 (the stale session A), the new element 0 is empty, and
  the writers change places. But a writer holds the address of the element it was
  created or reset on, and changing places does not change that address: after the first
  rotation the writer at position 1 still targets element 0. So, for every engine, the
  output of the next write through writer B is appended to element 0 and not to the
  buffer that holds the stale session's history, the length of element 1 does not move
  between the two measurements, and the write reports 0.
\<close>

theorem C1_rotation_detaches_writer:
  "target (w0 e) = I0 \<Longrightarrow> rotates Z p e \<Longrightarrow> write_est Z p e = Inr (d, e') \<Longrightarrow>
     (\<exists>e3. e' = rotate Z e3 \<and> b1 e' = b0 e3) \<and> b0 e' = []
     \<and> target (w1 e') = I0 \<and> target (w0 e') = I1
     \<and> (\<forall>q d' e''. write_est Z q e' = Inr (d', e'') \<longrightarrow>
           d' = 0 \<and> (\<exists>e2 out. writeFlush Z I1 q e' = Inr e2 \<and> b1 e2 = b1 e'
                               \<and> b0 e2 = b0 e' @ out))"
proof -
  assume t0: "target (w0 e) = I0" and rot: "rotates Z p e"
    and run: "write_est Z p e = Inr (d, e')"
  obtain e2 e3 where e': "e' = rotate Z e3" and t3: "target (w0 e3) = I0"
    using write_est_cases [OF run] rot t0 by auto
  have facts: "b1 e' = b0 e3" "b0 e' = []" "target (w1 e') = I0" "target (w0 e') = I1"
    using rotate_crosses_targets [of Z e3] e' t3 by simp_all
  have next_write: "d' = 0 \<and> (\<exists>e2 out. writeFlush Z I1 q e' = Inr e2 \<and> b1 e2 = b1 e'
                               \<and> b0 e2 = b0 e' @ out)"
    if w: "write_est Z q e' = Inr (d', e'')" for q d' e''
  proof -
    obtain ea where a: "writeFlush Z I1 q e' = Inr ea"
      using write_est_Inr [OF w] by blast
    have "\<exists>out. b0 ea = b0 e' @ out \<and> b1 ea = b1 e'"
      using writeFlush_I1 [OF a] facts(3) by auto
    then show ?thesis using crossed_write_delta_zero [OF facts(3) w] a by auto
  qed
  show ?thesis using e' facts next_write by blast
qed

lemma unrotated_rotates: "rotates storeZ (replicate 62000 3) unrotated_example"
  by (simp add: rotates_def writeFlush_def writerWrite_def writerFlush_def mirror_def
        writerAt_def setWriterAt_def appendAt_def storeZ_def unrotated_example_def)

lemma step3': "write_est storeZ (replicate 62000 3) unrotated_example = Inr (62002, rotated_example)"
  using step3 by (simp add: unrotated_example_def)

theorem C1_rotation_detaches_writer_witness:
  "writes storeZ [replicate 60000 1, replicate 10000 2] (newZlibBatchEstimator storeZ)
     = Inr ([60004, 10002], unrotated_example)
   \<and> target (w0 unrotated_example) = I0
   \<and> rotates storeZ (replicate 62000 3) unrotated_example
   \<and> write_est storeZ (replicate 62000 3) unrotated_example = Inr (62002, rotated_example)
   \<and> length (b1 rotated_example) = 72010
   \<and> b0 rotated_example = []
   \<and> target (w1 rotated_example) = I0
   \<and> write_est storeZ [1, 2, 3] rotated_example
       = Inr (0, rotated_example
           \<lparr>b0 := [1, 2, 3, 0, 0, 0xFF, 0xFF],
             b1 := b1 rotated_example @ [0x78, 0xDA, 1, 2, 3, 0, 0, 0xFF, 0xFF],
             w0 := \<lparr>target = I1, zstate = (True, [])\<rparr>\<rparr>)"
proof -
  have t0: "target (w0 unrotated_example) = I0" by (simp add: unrotated_example_def)
  have reach: "writes storeZ [replicate 60000 1, replicate 10000 2] (newZlibBatchEstimator storeZ)
     = Inr ([60004, 10002], unrotated_example)"
    by (simp add: step1 step2 unrotated_example_def)
  have len: "length (b1 rotated_example) = 72010" by (simp add: rotated_example_def)
  from C1_rotation_detaches_writer [OF t0 unrotated_rotates step3']
  have emp: "b0 rotated_example = []" and tgt: "target (w1 rotated_example) = I0"
    by simp_all
  show ?thesis
    by (intro conjI reach t0 unrotated_rotates step3' len emp tgt step4)
qed

text \<open>
  Claim C8, on the code. Once writer B targets element 0 (the state every first rotation
  leaves), the same chunk written twice with no rotation in between reports 0 both times,
  for every engine: the second delta is not strictly smaller than the first.
\<close>

theorem C8_identical_chunk_twice:
  "target (w1 e) = I0 \<Longrightarrow> write_est Z p e = Inr (d1, e1) \<Longrightarrow> \<not> rotates Z p e \<Longrightarrow>
     write_est Z p e1 = Inr (d2, e2) \<Longrightarrow> d1 = 0 \<and> d2 = 0 \<and> \<not> d2 < d1"
proof -
  assume t: "target (w1 e) = I0" and w1: "write_est Z p e = Inr (d1, e1)"
    and nr: "\<not> rotates Z p e" and w2: "write_est Z p e1 = Inr (d2, e2)"
  have d1: "d1 = 0" by (rule crossed_write_delta_zero [OF t w1])
  have "target (w1 e1) = I0" using targets_kept_without_rotation [OF w1 nr] t by simp
  then have d2: "d2 = 0" by (rule crossed_write_delta_zero [OF _ w2])
  show ?thesis using d1 d2 by simp
qed

lemma rotated_no_rotation: "\<not> rotates storeZ [1, 2, 3] rotated_example"
  by (simp add: rotates_def writeFlush_def writerWrite_def writerFlush_def mirror_def
        writerAt_def setWriterAt_def appendAt_def storeZ_def rotated_example_def)

theorem C8_identical_chunk_twice_witness:
  "writes storeZ [replicate 60000 1, replicate 10000 2, replicate 62000 3]
      (newZlibBatchEstimator storeZ) = Inr ([60004, 10002, 62002], rotated_example)
   \<and> target (w1 rotated_example) = I0
   \<and> \<not> rotates storeZ [1, 2, 3] rotated_example
   \<and> writes storeZ [[1, 2, 3], [1, 2, 3]] rotated_example
     = Inr ([0, 0], rotated_example
           \<lparr>b0 := [1, 2, 3, 0, 0, 0xFF, 0xFF, 1, 2, 3, 0, 0, 0xFF, 0xFF],
             b1 := b1 rotated_example @ [0x78, 0xDA, 1, 2, 3, 0, 0, 0xFF, 0xFF, 1, 2, 3, 0, 0, 0xFF, 0xFF],
             w0 := \<lparr>target = I1, zstate = (True, [])\<rparr>\<rparr>)
   \<and> \<not> ((0 :: uint32) < 0)"
proof -
  have tgt: "target (w1 rotated_example) = I0" by (simp add: rotated_example_def)
  have two: "writes storeZ [[1, 2, 3], [1, 2, 3]] rotated_example
     = Inr ([0, 0], rotated_example
           \<lparr>b0 := [1, 2, 3, 0, 0, 0xFF, 0xFF, 1, 2, 3, 0, 0, 0xFF, 0xFF],
             b1 := b1 rotated_example @ [0x78, 0xDA, 1, 2, 3, 0, 0, 0xFF, 0xFF, 1, 2, 3, 0, 0, 0xFF, 0xFF],
             w0 := \<lparr>target = I1, zstate = (True, [])\<rparr>\<rparr>)"
    by (simp add: step4 step5)
  have "\<not> ((0 :: uint32) < 0)"
    using C8_identical_chunk_twice [OF tgt step4 rotated_no_rotation step5] by simp
  then show ?thesis
    by (intro conjI reach_rotated tgt rotated_no_rotation two)
qed

section \<open>Properties of the estimator worker\<close>

lemma processTx_not_eligible:
  assumes "\<not> eligible tx" "processTx cfg Z blk tx w = Inr w'"
  shows "resultChan w' = resultChan w \<and> bootstrapDone w' = bootstrapDone w
         \<and> bootstrapCount w' = bootstrapCount w"
  using assms by (auto simp: processTx_def eligible_def split: if_splits option.splits)

lemma processTx_bootstrapping:
  assumes "eligible tx" "\<not> bootstrapDone w" "processTx cfg Z blk tx w = Inr w'"
  shows "resultChan w' = resultChan w \<and> bootstrapCount w' = bootstrapCount w + 1
         \<and> bootstrapDone w' = (bootstrapCount w + 1 \<ge> bootstrapTxs cfg)"
  using assms
  by (auto simp: processTx_def eligible_def Let_def split: if_splits option.splits sum.splits prod.splits)

lemma processTx_estimating:
  assumes "eligible tx" "bootstrapDone w" "processTx cfg Z blk tx w = Inr w'"
  shows "\<exists>r. resultChan w' = resultChan w @ [r] \<and> BlockNumber r = NumberU64 blk
         \<and> bootstrapDone w' \<and> bootstrapCount w' = bootstrapCount w"
  using assms
  by (auto simp: processTx_def eligible_def Let_def split: if_splits option.splits sum.splits prod.splits)

lemma processTx_count:
  assumes "processTx cfg Z blk tx w = Inr w'"
  shows "length (resultChan w') = length (resultChan w) + (length (filter eligible [tx]) - toBootstrap cfg w)
         \<and> toBootstrap cfg w' = toBootstrap cfg w - length (filter eligible [tx])"
proof (cases "eligible tx")
  case False
  then show ?thesis using processTx_not_eligible [OF False assms] by (simp add: toBootstrap_def)
next
  case True
  show ?thesis
  proof (cases "bootstrapDone w")
    case True
    then show ?thesis using processTx_estimating [OF \<open>eligible tx\<close> True assms]
      by (auto simp: toBootstrap_def \<open>eligible tx\<close>)
  next
    case False
    then show ?thesis using processTx_bootstrapping [OF True False assms] True
      by (auto simp: toBootstrap_def)
  qed
qed

lemma processTxs_count:
  "processTxs cfg Z blk txs w = Inr w' \<Longrightarrow>
     length (resultChan w') = length (resultChan w) + (length (filter eligible txs) - toBootstrap cfg w)
     \<and> toBootstrap cfg w' = toBootstrap cfg w - length (filter eligible txs)"
proof (induction txs arbitrary: w)
  case Nil
  then show ?case by simp
next
  case (Cons tx txs)
  then obtain w1 where a: "processTx cfg Z blk tx w = Inr w1"
    and b: "processTxs cfg Z blk txs w1 = Inr w'"
    by (auto split: sum.splits)
  show ?case
    using processTx_count [OF a] Cons.IH [OF b] by (cases "eligible tx") auto
qed

lemma workerLoop_count:
  "workerLoop cfg Z jobs w = Inr w' \<Longrightarrow>
     length (resultChan w') = length (resultChan w) + (length (filter eligible (jobTxs jobs)) - toBootstrap cfg w)
     \<and> toBootstrap cfg w' = toBootstrap cfg w - length (filter eligible (jobTxs jobs))"
proof (induction cfg Z jobs w rule: workerLoop.induct)
  case (1 cfg Z w)
  then show ?case by simp
next
  case (2 cfg Z jobs w)
  then show ?case by (simp add: toBootstrap_def)
next
  case (3 cfg Z blk jobs w)
  then obtain w1 where a: "processTxs cfg Z blk (Transactions blk) w = Inr w1"
    and b: "workerLoop cfg Z jobs w1 = Inr w'"
    by (auto split: sum.splits)
  show ?case
    using processTxs_count [OF a] 3(1) [OF a b] by auto
qed

text \<open>From a new worker: the number of results, for every engine and every threshold.\<close>

lemma worker_result_count:
  assumes "workerLoop cfg Z jobs (newWorker Z) = Inr w'"
  shows "length (resultChan w')
           = length (filter eligible (jobTxs jobs)) - nat (max 1 (bootstrapTxs cfg))"
  using workerLoop_count [OF assms] by (simp add: toBootstrap_def newWorker_def)


lemmas storeZ_eval =
  write_est_def writeFlush_def writerWrite_def writerFlush_def mirror_def
  writerAt_def setWriterAt_def appendAt_def storeZ_def Let_def






text \<open>
  A bootstrap step hands the bytes to the zlib estimator and keeps its new state; its
  outcome does not involve \<open>FlzCompressLen\<close>.
\<close>

lemma processTx_bootstrapping_feeds:
  assumes "eligible tx" "\<not> bootstrapDone w" "processTx cfg Z blk tx w = Inr w'"
  shows "\<exists>d. write_est Z (payload cfg tx) (zlibBestBatchEstimator w)
              = Inr (d, zlibBestBatchEstimator w')"
  using assms
  by (auto simp: processTx_def eligible_def Let_def payload_def
        split: if_splits option.splits sum.splits prod.splits)





lemma example_run_shipped:
  "\<exists>W. workerLoop shipped storeZ example_jobs (newWorker storeZ) = Inr W"
  by (simp add: shipped_def example_jobs_def example_block_def newWorker_def
        newZlibBatchEstimator_def processTx_def trimmed_def DepositTxType_def storeZ_eval)





text \<open>A number read as negative is the request for the head block.\<close>

lemma BlockByNumber_negative:
  "sint number < 0 \<Longrightarrow> BlockByNumber c number = BlockByHash c (ReadHeadBlockHash c)"
  by (simp add: BlockByNumber_def)

lemma retryLoop_first_success:
  assumes "cl (client f) blockNum = ((blk, None), c)" "0 < maxRetries"
  shows "retryLoop cl blockNum maxRetries 0 f
           = f\<lparr>client := c, block := blk, err := None, calls := calls f + 1\<rparr>"
  using assms by (subst retryLoop.simps) simp

text \<open>
  Claim C10. With the local store as block source, a block number (one that
  \<^verbatim>\<open>int64\<close> holds, so that the client does not take it for the request for the head
  block) whose canonical hash is missing makes \<^verbatim>\<open>BlockByNumber\<close> return a nil block
  and a nil error. The fetcher takes that for a success at the first call: one call, no
  sleep, no logged drop, and a job with a nil block. The worker logs the nil block and
  skips it, so no record is produced.
\<close>

theorem C10_missing_local_block:
  "ReadCanonicalHash c number = 0 \<Longrightarrow> 0 \<le> sint number \<Longrightarrow>
     BlockByNumber c number = (None, None)
     \<and> retryLoop localClient number 8 0
           \<lparr>client = c, block = None, err = None, retryDelay = 100, slept = [], calls = 0\<rparr>
         = \<lparr>client = c, block = None, err = None, retryDelay = 100, slept = [], calls = 1\<rparr>
     \<and> fetchBlock localClient c number
         = (\<lparr>client = c, block = None, err = None, retryDelay = 100, slept = [], calls = 1\<rparr>,
            [None], [])
     \<and> workerLoop cfg Z (fst (snd (fetchBlock localClient c number))) w
         = Inr (w\<lparr>workerLog := workerLog w @ [WorkerNilBlock]\<rparr>)
     \<and> resultChan (w\<lparr>workerLog := workerLog w @ [WorkerNilBlock]\<rparr>) = resultChan w"
proof -
  assume h: "ReadCanonicalHash c number = 0" and nn: "0 \<le> sint number"
  have a: "BlockByNumber c number = (None, None)"
    using h nn by (simp add: BlockByNumber_def)
  have b: "fetchBlock localClient c number
         = (\<lparr>client = c, block = None, err = None, retryDelay = 100, slept = [], calls = 1\<rparr>,
            [None], [])"
    unfolding fetchBlock_def
    by (subst retryLoop_first_success [where blk = None and c = c])
       (simp_all add: localClient_def a)
  have r: "retryLoop localClient number 8 0
           \<lparr>client = c, block = None, err = None, retryDelay = 100, slept = [], calls = 0\<rparr>
         = \<lparr>client = c, block = None, err = None, retryDelay = 100, slept = [], calls = 1\<rparr>"
    by (subst retryLoop_first_success [where blk = None and c = c])
       (simp_all add: localClient_def a)
  show ?thesis using a b r by simp
qed

theorem C10_missing_local_block_witness:
  "ReadCanonicalHash \<lparr>ReadCanonicalHash = (\<lambda>n. 0), ReadHeadBlockHash = 0,
        ReadHeaderNumber = (\<lambda>h. None), ReadBlock = (\<lambda>h n. None)\<rparr> 7 = 0
   \<and> 0 \<le> sint (7 :: uint64)
   \<and> fetchBlock localClient \<lparr>ReadCanonicalHash = (\<lambda>n. 0), ReadHeadBlockHash = 0,
        ReadHeaderNumber = (\<lambda>h. None), ReadBlock = (\<lambda>h n. None)\<rparr> 7
       = (\<lparr>client = \<lparr>ReadCanonicalHash = (\<lambda>n. 0), ReadHeadBlockHash = 0,
              ReadHeaderNumber = (\<lambda>h. None), ReadBlock = (\<lambda>h n. None)\<rparr>,
            block = None, err = None, retryDelay = 100, slept = [], calls = 1\<rparr>,
          [None], [])
   \<and> map_sum id resultChan
       (workerLoop \<lparr>trimSignature = False, bootstrapTxs = 1000\<rparr> storeZ
         (fst (snd (fetchBlock localClient \<lparr>ReadCanonicalHash = (\<lambda>n. 0), ReadHeadBlockHash = 0,
            ReadHeaderNumber = (\<lambda>h. None), ReadBlock = (\<lambda>h n. None)\<rparr> 7)))
         (newWorker storeZ))
       = Inr []"
  using C10_missing_local_block
    [of "\<lparr>ReadCanonicalHash = (\<lambda>n. 0), ReadHeadBlockHash = 0,
        ReadHeaderNumber = (\<lambda>h. None), ReadBlock = (\<lambda>h n. None)\<rparr>" 7
        "\<lparr>trimSignature = False, bootstrapTxs = 1000\<rparr>" storeZ "newWorker storeZ"]
  by (simp add: newWorker_def)

end
